theory Spec2Isabelle
  imports Complex_Main
begin

section \<open>Data model\<close>

text \<open>
  Python exceptions that the modelled functions can raise.
\<close>

datatype error = AssertionError | TypeError | IndexError

text \<open>
  A target is the per-image dictionary with the keys \<open>labels\<close>, \<open>masks\<close> and \<open>boxes\<close>
  built by \<open>prepare_targets\<close>. A mask is a binary raster; the raster is kept as the flat
  list of its pixels (row after row), since nothing below depends on the two-dimensional
  layout. Boxes are carried along unchanged and stay abstract.
\<close>

record 'b target =
  labels :: "int list"
  masks :: "bool list list"
  boxes :: "'b list"

text \<open>
  A prediction tensor of shape \<open>(B, Q, ...)\<close>: \<open>shape1\<close> is \<open>v.shape[1]\<close>, the number of
  query slots, and \<open>slots\<close> holds, for every image of the batch, its list of query slots.
\<close>

record 'a tensor =
  shape1 :: nat
  slots :: "'a list list"

definition tensor_ok :: "'a tensor \<Rightarrow> bool" where
  "tensor_ok v = list_all (\<lambda>r. length r = shape1 v) (slots v)"

text \<open>A match for one image: the prediction indices and the target indices.\<close>

type_synonym indice = "int list \<times> int list"


section \<open>SetCriterion: the loss normalizer\<close>

text \<open>
  \<open>num_masks = sum(len(t["labels"]) for t in complete_psd_targets)\<close>, then, when the
  process group is initialised, \<open>all_reduce\<close> adds the counts of the other workers; the
  sum is divided by \<open>get_world_size()\<close> and clamped from below at 1.
  The process group \<open>grp\<close> is \<open>None\<close> when none is initialised, and otherwise holds
  the counts contributed by the other workers.
\<close>

definition count_targets :: "'b target list \<Rightarrow> nat" where
  "count_targets ts = sum_list (map (\<lambda>t. length (labels t)) ts)"

definition all_reduce :: "nat list option \<Rightarrow> nat \<Rightarrow> nat" where
  "all_reduce grp n = (case grp of None \<Rightarrow> n | Some others \<Rightarrow> n + sum_list others)"

definition get_world_size :: "nat list option \<Rightarrow> nat" where
  "get_world_size grp = (case grp of None \<Rightarrow> 1 | Some others \<Rightarrow> 1 + length others)"

definition num_masks :: "nat list option \<Rightarrow> 'b target list \<Rightarrow> real" where
  "num_masks grp complete_psd_targets =
     max (real (all_reduce grp (count_targets complete_psd_targets))
            / real (get_world_size grp)) 1"


section \<open>SetCriterion: the matching adapter\<close>

subsection \<open>Removing the fake queries\<close>

text \<open>
  \<open>v[:, :-fake_num]\<close> for a positive \<open>fake_num\<close>: every image keeps its slots up to the
  last \<open>fake_num\<close> ones.
\<close>

definition slice_upto_neg :: "nat \<Rightarrow> 'a list \<Rightarrow> 'a list" where
  "slice_upto_neg k xs = take (length xs - k) xs"

definition remove_fake_query_tensor :: "'a tensor \<Rightarrow> 'a tensor" where
  "remove_fake_query_tensor v =
     (let fake_num = int (shape1 v) - 100 in
      if fake_num > 0
      then \<lparr>shape1 = shape1 v - nat fake_num,
            slots = map (slice_upto_neg (nat fake_num)) (slots v)\<rparr>
      else v)"

definition remove_fake_query :: "(string \<times> 'a tensor) list \<Rightarrow> (string \<times> 'a tensor) list" where
  "remove_fake_query outputs = map (\<lambda>(k, v). (k, remove_fake_query_tensor v)) outputs"

text \<open>
  The contract in the words of the specification, for comparison: the last \<open>vq_number\<close>
  query slots of the tensor are cut off.
\<close>

definition spec_truncate_last :: "nat \<Rightarrow> 'a tensor \<Rightarrow> 'a tensor" where
  "spec_truncate_last vq_number v =
     \<lparr>shape1 = shape1 v - vq_number,
      slots = map (\<lambda>r. take (length r - vq_number) r) (slots v)\<rparr>"

subsection \<open>Splicing the fake queries back in\<close>

text \<open>Python's \<open>max\<close> over a non-empty sequence.\<close>

fun py_max :: "int list \<Rightarrow> int" where
  "py_max [] = 0"
| "py_max (x # xs) = fold max xs x"

definition modify_indice :: "nat \<Rightarrow> indice \<Rightarrow> indice" where
  "modify_indice vq_number indice =
     (let max_indice = (if length (snd indice) > 0 then py_max (snd indice) else - 1)
      in (fst indice @ map int [100 ..< 100 + vq_number],
          snd indice @ map (\<lambda>i. max_indice + int i + 1) [0 ..< vq_number]))"

text \<open>
  The loop over \<open>zip(new_targets, fake_query_labels)\<close>: the labels of each zipped target
  are extended, targets beyond the shorter list stay as they are.
\<close>

fun extend_labels :: "'b target list \<Rightarrow> int list list \<Rightarrow> 'b target list" where
  "extend_labels (t # ts) (fql # fqls) = t\<lparr>labels := labels t @ fql\<rparr> # extend_labels ts fqls"
| "extend_labels ts fqls = ts"

definition modify_indices_targets_for_fake_query ::
  "nat \<Rightarrow> indice list \<Rightarrow> 'b target list \<Rightarrow> int list list option
     \<Rightarrow> error + (indice list \<times> 'b target list)" where
  "modify_indices_targets_for_fake_query vq_number indices targets fake_query_labels =
     (case fake_query_labels of
        None \<Rightarrow> Inr (indices, targets)
      | Some fqls \<Rightarrow>
          if \<not> (length fqls = length targets \<and> length targets = length indices)
          then Inl AssertionError
          else Inr (map (modify_indice vq_number) indices, extend_labels targets fqls))"


section \<open>SetCriterion: the complete targets and the loss schedule\<close>

subsection \<open>Fusing pseudo targets and real targets\<close>

text \<open>\<open>torch.cat\<close> of the labels, the masks and the boxes of two targets.\<close>

definition concat_target :: "'b target \<Rightarrow> 'b target \<Rightarrow> 'b target" where
  "concat_target p t =
     \<lparr>labels = labels p @ labels t, masks = masks p @ masks t, boxes = boxes p @ boxes t\<rparr>"

text \<open>
  \<open>bool(np.logical_not(np.isin(tgt['labels'], current_catagory_ids)).sum() != 0)\<close>: the
  number of labels of the target outside the current category ids is not zero.
\<close>

definition is_memory :: "int list \<Rightarrow> 'b target \<Rightarrow> bool" where
  "is_memory current_catagory_ids tgt =
     (length (filter (\<lambda>l. l \<notin> set current_catagory_ids) (labels tgt)) \<noteq> 0)"

definition memory_part :: "int list option \<Rightarrow> 'b target list \<Rightarrow> bool list option" where
  "memory_part current_catagory_ids targets =
     (case current_catagory_ids of
        None \<Rightarrow> None
      | Some ids \<Rightarrow> Some (map (is_memory ids) targets))"

text \<open>
  The loop over \<open>zip(psd_targets, targets)\<close> in \<open>SetCriterion.forward\<close>. Subscripting
  \<open>memory_part\<close> when it is \<open>None\<close> raises a \<open>TypeError\<close> in the first iteration.
\<close>

definition complete_psd_targets ::
  "int list option \<Rightarrow> 'b target list \<Rightarrow> 'b target list option \<Rightarrow> 'b target list option
     \<Rightarrow> error + 'b target list" where
  "complete_psd_targets current_catagory_ids targets psd_targets old_targets =
     (case psd_targets of
        None \<Rightarrow> Inr targets
      | Some ps \<Rightarrow>
         (case old_targets of
            None \<Rightarrow> Inr targets
          | Some os \<Rightarrow>
             (case memory_part current_catagory_ids targets of
                None \<Rightarrow> if zip ps targets = [] then Inr [] else Inl TypeError
              | Some mp \<Rightarrow>
                  Inr (map (\<lambda>(m, p, t).
                              if m then \<lparr>labels = labels t, masks = masks t, boxes = boxes t\<rparr>
                              else concat_target p t)
                         (zip mp (zip ps targets))))))"

subsection \<open>The arguments of the matcher\<close>

text \<open>\<open>'pred' in k\<close>: the key has \<open>pred\<close> as a substring.\<close>

fun has_substr :: "string \<Rightarrow> string \<Rightarrow> bool" where
  "has_substr p [] = (p = [])"
| "has_substr p (c # cs) = (take (length p) (c # cs) = p \<or> has_substr p cs)"

text \<open>
  The output dictionary restricted to its tensor-valued entries, as an association list;
  \<open>outputs_without_aux\<close> keeps the entries whose key contains \<open>pred\<close>.
\<close>

definition outputs_without_aux :: "(string \<times> 'a tensor) list \<Rightarrow> (string \<times> 'a tensor) list" where
  "outputs_without_aux outputs = filter (\<lambda>(k, v). has_substr ''pred'' k) outputs"

text \<open>
  The matcher is an external collaborator; what the two call sites hand to it is kept as
  the pair of its arguments. In the loss path (\<open>SetCriterion.forward\<close>) the fake queries
  are removed first and the targets are the complete targets above.
\<close>

definition loss_matcher_args ::
  "int list option \<Rightarrow> (string \<times> 'a tensor) list \<Rightarrow> 'b target list
     \<Rightarrow> 'b target list option \<Rightarrow> 'b target list option
     \<Rightarrow> error + ((string \<times> 'a tensor) list \<times> 'b target list)" where
  "loss_matcher_args current_catagory_ids outputs targets psd_targets old_targets =
     (case complete_psd_targets current_catagory_ids targets psd_targets old_targets of
        Inl e \<Rightarrow> Inl e
      | Inr fused \<Rightarrow> Inr (remove_fake_query (outputs_without_aux outputs), fused))"

text \<open>
  The pass of \<open>MaskFormer.forward\<close> that stores the fake queries: \<open>precise_targets\<close> is
  \<open>None\<close> when \<open>old_pred\<close> is \<open>None\<close>; otherwise every zipped pair is concatenated, and the
  matcher receives \<open>outputs_without_aux\<close> as it is.
\<close>

definition store_complete_psd_targets ::
  "'b target list option \<Rightarrow> 'b target list \<Rightarrow> 'b target list" where
  "store_complete_psd_targets precise_targets targets =
     (case precise_targets of
        Some ps \<Rightarrow> map (\<lambda>(p, t). concat_target p t) (zip ps targets)
      | None \<Rightarrow> targets)"

definition store_matcher_args ::
  "(string \<times> 'a tensor) list \<Rightarrow> 'b target list option \<Rightarrow> 'b target list
     \<Rightarrow> (string \<times> 'a tensor) list \<times> 'b target list" where
  "store_matcher_args outputs precise_targets targets =
     (outputs_without_aux outputs, store_complete_psd_targets precise_targets targets)"

subsection \<open>The schedule of the losses\<close>

text \<open>
  The three scopes of \<open>SetCriterion.forward\<close>, and a call of \<open>get_loss\<close> recorded by its
  scope, the name of the loss and what is passed in the position of \<open>indices\<close>: the
  matcher's indices, the indices extended for the fake queries, or a temperature.
\<close>

datatype scope = Primary | Aux nat | Interm

datatype loss_arg = Indices | FakeIndices | Temperature real

type_synonym loss_call = "scope \<times> string \<times> loss_arg"

record criterion =
  losses :: "string list"
  kd_deocder :: bool
  kd_temperature :: real
  kd_temperature2 :: real

text \<open>\<open>get_loss\<close> asserts that the name is a key of its \<open>loss_map\<close>.\<close>

definition get_loss :: "scope \<Rightarrow> string \<Rightarrow> loss_arg \<Rightarrow> error + loss_call" where
  "get_loss sc loss arg =
     (if loss \<in> set [''labels'', ''masks'', ''points'', ''kd'']
      then Inr (sc, loss, arg) else Inl AssertionError)"

definition then_calls :: "error + loss_call \<Rightarrow> (error + loss_call list) \<Rightarrow> error + loss_call list" where
  "then_calls r rest =
     (case r of
        Inl e \<Rightarrow> Inl e
      | Inr c \<Rightarrow> (case rest of Inl e \<Rightarrow> Inl e | Inr cs \<Rightarrow> Inr (c # cs)))"

definition seq_calls :: "(error + loss_call list) \<Rightarrow> (error + loss_call list) \<Rightarrow> error + loss_call list" where
  "seq_calls r rest =
     (case r of
        Inl e \<Rightarrow> Inl e
      | Inr cs \<Rightarrow> (case rest of Inl e \<Rightarrow> Inl e | Inr ds \<Rightarrow> Inr (cs @ ds)))"

fun primary_losses :: "criterion \<Rightarrow> string list \<Rightarrow> error + loss_call list" where
  "primary_losses c [] = Inr []"
| "primary_losses c (loss # rest) =
     (if loss = ''labels''
      then then_calls (get_loss Primary loss FakeIndices) (primary_losses c rest)
      else if loss = ''kd''
      then (if \<not> kd_deocder c then primary_losses c rest
            else then_calls (get_loss Primary loss (Temperature (kd_temperature2 c)))
                   (primary_losses c rest))
      else then_calls (get_loss Primary loss Indices) (primary_losses c rest))"

fun aux_losses :: "criterion \<Rightarrow> nat \<Rightarrow> string list \<Rightarrow> error + loss_call list" where
  "aux_losses c i [] = Inr []"
| "aux_losses c i (loss # rest) =
     (if loss = ''labels''
      then then_calls (get_loss (Aux i) loss FakeIndices) (aux_losses c i rest)
      else if loss = ''kd''
      then aux_losses c i rest
      else then_calls (get_loss (Aux i) loss Indices) (aux_losses c i rest))"

fun interm_losses :: "criterion \<Rightarrow> string list \<Rightarrow> error + loss_call list" where
  "interm_losses c [] = Inr []"
| "interm_losses c (loss # rest) =
     (if loss = ''labels''
      then then_calls (get_loss Interm loss FakeIndices) (interm_losses c rest)
      else if loss = ''kd''
      then then_calls (get_loss Interm loss (Temperature (kd_temperature c)))
             (interm_losses c rest)
      else then_calls (get_loss Interm loss Indices) (interm_losses c rest))"

fun all_aux_losses :: "criterion \<Rightarrow> nat list \<Rightarrow> error + loss_call list" where
  "all_aux_losses c [] = Inr []"
| "all_aux_losses c (i # is) = seq_calls (aux_losses c i (losses c)) (all_aux_losses c is)"

text \<open>
  The calls of \<open>get_loss\<close> made by \<open>SetCriterion.forward\<close>, in order: \<open>aux_outputs\<close> is the
  number of auxiliary outputs when the key \<open>aux_outputs\<close> is present, and \<open>interm_outputs\<close>
  tells whether the key \<open>interm_outputs\<close> is present.
\<close>

definition forward_loss_calls :: "criterion \<Rightarrow> nat option \<Rightarrow> bool \<Rightarrow> error + loss_call list" where
  "forward_loss_calls c aux_outputs interm_outputs =
     seq_calls (primary_losses c (losses c))
       (seq_calls
          (case aux_outputs of None \<Rightarrow> Inr [] | Some n \<Rightarrow> all_aux_losses c [0 ..< n])
          (if interm_outputs then interm_losses c (losses c) else Inr []))"

definition kd_calls :: "loss_call list \<Rightarrow> loss_call list" where
  "kd_calls calls = filter (\<lambda>(sc, loss, arg). loss = ''kd'') calls"


section \<open>The replay cache\<close>

subsection \<open>Bounded deques and the dictionary of buffers\<close>

text \<open>
  \<open>collections.deque(maxlen=n)\<close>: \<open>append\<close> adds the element on the right and, when the
  deque has become longer than \<open>maxlen\<close>, drops one element on the left; \<open>extend\<close> appends
  the elements one after the other.
\<close>

record 'f deque =
  maxlen :: nat
  items :: "'f list"

definition deque_factory :: "nat \<Rightarrow> 'f deque" where
  "deque_factory n = \<lparr>maxlen = n, items = []\<rparr>"

definition deque_append :: "'f deque \<Rightarrow> 'f \<Rightarrow> 'f deque" where
  "deque_append d x =
     (let xs = items d @ [x]
      in d\<lparr>items := (if length xs > maxlen d then tl xs else xs)\<rparr>)"

definition deque_extend :: "'f deque \<Rightarrow> 'f list \<Rightarrow> 'f deque" where
  "deque_extend d ys = fold (\<lambda>y e. deque_append e y) ys d"

text \<open>
  A Python dictionary in insertion order, as an association list with one entry per key:
  assigning to a present key replaces its value in place, assigning to a new key adds the
  entry at the end.
\<close>

fun dict_set :: "'k \<Rightarrow> 'v \<Rightarrow> ('k \<times> 'v) list \<Rightarrow> ('k \<times> 'v) list" where
  "dict_set k v [] = [(k, v)]"
| "dict_set k v ((k', v') # kvs) =
     (if k' = k then (k, v) # kvs else (k', v') # dict_set k v kvs)"

type_synonym 'f collect = "(int \<times> 'f deque) list"

subsection \<open>MaskFormer.forward: storing the fake queries\<close>

text \<open>
  Subscripting a tensor or list by an integer \<open>i\<close>: an index below zero addresses the
  element \<open>len + i\<close>, and an index outside \<open>-len .. len - 1\<close> raises.
\<close>

definition py_index :: "'a list \<Rightarrow> int \<Rightarrow> error + 'a" where
  "py_index xs i =
     (if 0 \<le> i \<and> i < int (length xs) then Inr (xs ! nat i)
      else if i < 0 \<and> - int (length xs) \<le> i then Inr (xs ! nat (int (length xs) + i))
      else Inl IndexError)"

text \<open>
  The process group is \<open>None\<close> when \<open>dist.is_initialized()\<close> is false, and otherwise holds
  the number of the other workers.
\<close>

definition world_size :: "nat option \<Rightarrow> nat" where
  "world_size grp = (case grp of None \<Rightarrow> 1 | Some others \<Rightarrow> 1 + others)"

text \<open>
  The body of the inner loop for one matched pair: a buffer is created for a class that is
  not yet a key of \<open>collect\<close>, then the feature is appended to the buffer of the class.
\<close>

definition store_one :: "nat \<Rightarrow> nat option \<Rightarrow> 'f collect \<Rightarrow> int \<Rightarrow> 'f \<Rightarrow> 'f collect" where
  "store_one lib_size grp collect gt_class feat =
     (case map_of collect gt_class of
        None \<Rightarrow>
          (let maxlen = lib_size div world_size grp
           in dict_set gt_class (deque_append (deque_factory maxlen) feat) collect)
      | Some d \<Rightarrow> dict_set gt_class (deque_append d feat) collect)"

fun store_pairs ::
  "nat \<Rightarrow> nat option \<Rightarrow> int list \<Rightarrow> 'f list \<Rightarrow> 'f collect \<Rightarrow> (int \<times> int) list
     \<Rightarrow> error + 'f collect" where
  "store_pairs lib_size grp lbls feats collect [] = Inr collect"
| "store_pairs lib_size grp lbls feats collect ((q, l) # rest) =
     (case py_index lbls l of
        Inl e \<Rightarrow> Inl e
      | Inr gt_class \<Rightarrow>
         (case py_index feats q of
            Inl e \<Rightarrow> Inl e
          | Inr feat \<Rightarrow>
              store_pairs lib_size grp lbls feats
                (store_one lib_size grp collect gt_class feat) rest))"

text \<open>
  The outer loop over \<open>enumerate(zip(indices, complete_psd_targets))\<close>; \<open>med_feats\<close> holds
  the query features of every image of the batch, and \<open>med_feats[index]\<close> is read only
  inside the inner loop, that is for an image with at least one matched pair.
\<close>

fun store_images ::
  "nat \<Rightarrow> nat option \<Rightarrow> 'f list list \<Rightarrow> int \<Rightarrow> 'f collect
     \<Rightarrow> (indice \<times> 'b target) list \<Rightarrow> error + 'f collect" where
  "store_images lib_size grp med_feats index collect [] = Inr collect"
| "store_images lib_size grp med_feats index collect ((indice, tgt) # rest) =
     (if zip (fst indice) (snd indice) = []
      then store_images lib_size grp med_feats (index + 1) collect rest
      else
        (case py_index med_feats index of
           Inl e \<Rightarrow> Inl e
         | Inr feats \<Rightarrow>
            (case store_pairs lib_size grp (labels tgt) feats collect
                    (zip (fst indice) (snd indice)) of
               Inl e \<Rightarrow> Inl e
             | Inr collect' \<Rightarrow>
                 store_images lib_size grp med_feats (index + 1) collect' rest)))"

definition store_fake_query ::
  "nat \<Rightarrow> nat option \<Rightarrow> 'f list list \<Rightarrow> 'f collect \<Rightarrow> indice list \<Rightarrow> 'b target list
     \<Rightarrow> error + 'f collect" where
  "store_fake_query lib_size grp med_feats collect indices complete_targets =
     store_images lib_size grp med_feats 0 collect (zip indices complete_targets)"

subsection \<open>Trainer.after_train: merging the buffers of the workers\<close>

text \<open>
  \<open>combined_collect\<close> is a \<open>defaultdict\<close> whose missing keys are created by
  \<open>deque_factory\<close> with \<open>maxlen = LIB_SIZE\<close>; the buffers of every gathered dictionary
  are added to it by \<open>extend\<close>, in the order of the ranks.
\<close>

definition combine_one :: "nat \<Rightarrow> 'f collect \<Rightarrow> int \<times> 'f deque \<Rightarrow> 'f collect" where
  "combine_one lib_size combined kv =
     (let d = (case map_of combined (fst kv) of
                 None \<Rightarrow> deque_factory lib_size
               | Some d \<Rightarrow> d)
      in dict_set (fst kv) (deque_extend d (items (snd kv))) combined)"

definition combine_collect :: "nat \<Rightarrow> 'f collect list \<Rightarrow> 'f collect" where
  "combine_collect lib_size gathered_collect =
     fold (\<lambda>gpu_collect combined. fold (\<lambda>kv c. combine_one lib_size c kv) gpu_collect combined)
       gathered_collect []"

text \<open>The last \<open>n\<close> elements of a list, and what the workers hold for one class.\<close>

definition take_last :: "nat \<Rightarrow> 'a list \<Rightarrow> 'a list" where
  "take_last n xs = drop (length xs - n) xs"

definition gathered_items :: "int \<Rightarrow> 'f collect list \<Rightarrow> 'f list" where
  "gathered_items k gathered_collect =
     concat (map (\<lambda>gpu_collect.
                    concat (map (\<lambda>kv. items (snd kv))
                              (filter (\<lambda>kv. fst kv = k) gpu_collect)))
               gathered_collect)"

subsection \<open>Invariants of the buffers\<close>

text \<open>
  Every buffer of the dictionary holds no more elements than its \<open>maxlen\<close>, and no
  \<open>maxlen\<close> exceeds \<open>cap\<close>.
\<close>

definition buffers_bounded :: "nat \<Rightarrow> 'f collect \<Rightarrow> bool" where
  "buffers_bounded cap c =
     list_all (\<lambda>kv. length (items (snd kv)) \<le> maxlen (snd kv) \<and> maxlen (snd kv) \<le> cap) c"

text \<open>
  The merged dictionary after the buffers \<open>seen\<close> have been added: a class is a key when
  something was added for it, and its buffer holds the last \<open>lib_size\<close> elements added.
\<close>

definition merged_upto :: "nat \<Rightarrow> (int \<Rightarrow> 'f list) \<Rightarrow> 'f collect \<Rightarrow> bool" where
  "merged_upto lib_size seen c =
     (\<forall>k. case map_of c k of
             None \<Rightarrow> seen k = []
           | Some d \<Rightarrow> maxlen d = lib_size \<and> items d = take_last lib_size (seen k))"


section \<open>MaskFormer.generate_psd_targets\<close>

subsection \<open>Predictions of the old model\<close>

text \<open>
  The prediction of the old model for one image: the dictionary with the keys \<open>labels\<close>,
  \<open>masks\<close>, \<open>scores\<close> and \<open>boxes\<close> built by \<open>MaskFormer.forward\<close> with \<open>psd_label\<close> set.
  A mask is a raster of probabilities, kept as the flat list of its pixels. All masks of an
  image, predicted and real, are rasters of the padded canvas, of \<open>npix\<close> pixels; the four
  tensors of a prediction have the same first dimension.
\<close>

record 'b prediction =
  p_labels :: "int list"
  p_masks :: "real list list"
  p_scores :: "real list"
  p_boxes :: "'b list"

definition shapes_ok :: "nat \<Rightarrow> 'b target \<Rightarrow> 'c prediction \<Rightarrow> bool" where
  "shapes_ok npix gt_target old_pred =
     (length (p_labels old_pred) = length (p_masks old_pred)
      \<and> length (p_scores old_pred) = length (p_masks old_pred)
      \<and> length (p_boxes old_pred) = length (p_masks old_pred)
      \<and> list_all (\<lambda>m. length m = npix) (p_masks old_pred)
      \<and> list_all (\<lambda>m. length m = npix) (masks gt_target))"

text \<open>Indexing a tensor with a boolean tensor \<open>x[keep]\<close>.\<close>

definition select :: "bool list \<Rightarrow> 'a list \<Rightarrow> 'a list" where
  "select keep xs = map snd (filter fst (zip keep xs))"

definition score_keep :: "bool \<Rightarrow> real list \<Rightarrow> bool list" where
  "score_keep strict_mode scores =
     (if strict_mode then map (\<lambda>s. s \<ge> 4 / 10) scores else map (\<lambda>s. s \<ge> 0) scores)"

text \<open>\<open>old_masks\<close>, \<open>old_labels\<close>, \<open>old_scores\<close> and \<open>old_boxes\<close>.\<close>

definition candidates :: "bool \<Rightarrow> 'b prediction \<Rightarrow> 'b prediction" where
  "candidates strict_mode old_pred =
     (let keep = score_keep strict_mode (p_scores old_pred)
      in \<lparr>p_labels = select keep (p_labels old_pred),
          p_masks = select keep (p_masks old_pred),
          p_scores = select keep (p_scores old_pred),
          p_boxes = select keep (p_boxes old_pred)\<rparr>)"

subsection \<open>Areas, ownership of the pixels and the ground-truth region\<close>

definition binarize :: "real list \<Rightarrow> bool list" where
  "binarize m = map (\<lambda>p. p \<ge> 1 / 2) m"

text \<open>\<open>.sum(dim=(1, 2))\<close> of one boolean mask.\<close>

definition area :: "bool list \<Rightarrow> nat" where
  "area m = length (filter (\<lambda>b. b) m)"

definition old_area :: "real list list \<Rightarrow> nat list" where
  "old_area old_masks = map (\<lambda>m. area (binarize m)) old_masks"

definition prob_masks :: "real list \<Rightarrow> real list list \<Rightarrow> real list list" where
  "prob_masks old_scores old_masks = map (\<lambda>(s, m). map (\<lambda>p. s * p) m) (zip old_scores old_masks)"

text \<open>\<open>argmax\<close> returns the index of the first maximal value.\<close>

fun argmax_from :: "nat \<Rightarrow> real \<Rightarrow> nat \<Rightarrow> real list \<Rightarrow> nat" where
  "argmax_from best bv i [] = best"
| "argmax_from best bv i (x # xs) =
     (if bv < x then argmax_from i x (Suc i) xs else argmax_from best bv (Suc i) xs)"

definition argmax :: "real list \<Rightarrow> nat" where
  "argmax xs = (case xs of [] \<Rightarrow> 0 | x # rest \<Rightarrow> argmax_from 0 x 1 rest)"

definition mask_ids :: "nat \<Rightarrow> real list list \<Rightarrow> nat list" where
  "mask_ids npix pms = map (\<lambda>j. argmax (map (\<lambda>pm. pm ! j) pms)) [0 ..< npix]"

text \<open>
  The loop over \<open>range(old_labels.shape[0])\<close> fills the rows of \<open>non_ol_masks\<close> and
  \<open>selected_masks\<close>, which start as all-zero tensors shaped like \<open>old_masks\<close>.
\<close>

definition non_ol_masks_init :: "nat \<Rightarrow> nat \<Rightarrow> nat list \<Rightarrow> real list list \<Rightarrow> bool list list" where
  "non_ol_masks_init npix n_labels ids old_masks =
     map (\<lambda>k. if k < n_labels
               then map (\<lambda>j. ids ! j = k \<and> (old_masks ! k) ! j \<ge> 1 / 2) [0 ..< npix]
               else replicate npix False)
       [0 ..< length old_masks]"

definition selected_masks :: "nat \<Rightarrow> nat \<Rightarrow> nat list \<Rightarrow> real list list \<Rightarrow> bool list list" where
  "selected_masks npix n_labels ids old_masks =
     map (\<lambda>k. if k < n_labels
               then map (\<lambda>j. ids ! j = k) [0 ..< npix]
               else replicate npix False)
       [0 ..< length old_masks]"

text \<open>\<open>torch.clamp(gt_target["masks"].sum(0).int(), min=0, max=1)\<close>.\<close>

definition clamp01 :: "int \<Rightarrow> int" where
  "clamp01 x = min (max x 0) 1"

definition gt_region :: "nat \<Rightarrow> bool list list \<Rightarrow> int list" where
  "gt_region npix gt_masks =
     map (\<lambda>j. clamp01 (sum_list (map (\<lambda>m. if m ! j then 1 else 0) gt_masks))) [0 ..< npix]"

text \<open>\<open>torch.logical_and(non_ol_masks, torch.logical_not(gt_region))\<close>.\<close>

definition non_ol_masks ::
  "nat \<Rightarrow> 'b target \<Rightarrow> 'c prediction \<Rightarrow> bool list list" where
  "non_ol_masks npix gt_target cand =
     (let ids = mask_ids npix (prob_masks (p_scores cand) (p_masks cand));
          region = gt_region npix (masks gt_target)
      in map (\<lambda>row. map (\<lambda>(b, g). b \<and> g = 0) (zip row region))
           (non_ol_masks_init npix (length (p_labels cand)) ids (p_masks cand)))"

definition new_area :: "nat \<Rightarrow> 'b target \<Rightarrow> 'c prediction \<Rightarrow> nat list" where
  "new_area npix gt_target cand = map area (non_ol_masks npix gt_target cand)"

definition argmax_area :: "nat \<Rightarrow> 'c prediction \<Rightarrow> nat list" where
  "argmax_area npix cand =
     map area (selected_masks npix (length (p_labels cand))
                 (mask_ids npix (prob_masks (p_scores cand) (p_masks cand))) (p_masks cand))"

subsection \<open>The filter and the emitted targets\<close>

definition psd_keep :: "bool \<Rightarrow> real \<Rightarrow> nat \<Rightarrow> 'b target \<Rightarrow> 'c prediction \<Rightarrow> bool list" where
  "psd_keep strict_mode psd_overlap_threshold npix gt_target cand =
     map (\<lambda>(na, oa, aa).
            if strict_mode
            then na > 0 \<and> real na > real oa * psd_overlap_threshold
                 \<and> real oa > real aa * psd_overlap_threshold
            else na > 0 \<and> real na > real oa * psd_overlap_threshold)
       (zip (new_area npix gt_target cand)
          (zip (old_area (p_masks cand)) (argmax_area npix cand)))"

text \<open>
  \<open>select_masks[psd_target["labels"] == label].sum(dim=0).clamp(min=0, max=1)\<close>, turned
  into a boolean mask by \<open>BitMasks\<close>.
\<close>

definition label_mask :: "nat \<Rightarrow> int list \<Rightarrow> bool list list \<Rightarrow> int \<Rightarrow> bool list" where
  "label_mask npix lbls select_masks label =
     map (\<lambda>j. clamp01 (sum_list (map (\<lambda>m. if m ! j then 1 else 0)
                                    (select (map (\<lambda>l. l = label) lbls) select_masks))) \<noteq> 0)
       [0 ..< npix]"

text \<open>
  The body of the loop of \<open>generate_psd_targets\<close> for one image: the pseudo target and the
  old target. \<open>bbox\<close> stands for the normalised box computed from a mask. \<open>torch.unique\<close>
  returns the labels sorted and without repetition.
\<close>

definition generate_psd_target ::
  "(bool list \<Rightarrow> 'b) \<Rightarrow> bool \<Rightarrow> real \<Rightarrow> bool \<Rightarrow> nat \<Rightarrow> 'b target \<Rightarrow> 'b prediction
     \<Rightarrow> 'b target \<times> 'b target" where
  "generate_psd_target bbox strict_mode psd_overlap_threshold combine_psdlabel npix
       gt_target old_pred =
     (let cand = candidates strict_mode old_pred
      in if length (p_masks cand) = 0
         then (let t = \<lparr>labels = p_labels cand, masks = map binarize (p_masks cand),
                         boxes = p_boxes cand\<rparr>
               in (t, t))
         else
           (let keep = psd_keep strict_mode psd_overlap_threshold npix gt_target cand;
                lbls = select keep (p_labels cand);
                select_masks = select keep (non_ol_masks npix gt_target cand)
            in if combine_psdlabel
               then (let unique_labels = sort (remdups lbls);
                         temp_masks = map (label_mask npix lbls select_masks) unique_labels;
                         t = \<lparr>labels = unique_labels, masks = temp_masks,
                              boxes = map bbox temp_masks\<rparr>
                     in (t, t))
               else (let t = \<lparr>labels = lbls, masks = select_masks,
                              boxes = map bbox select_masks\<rparr>
                     in (t, t))))"

text \<open>
  The loop over \<open>zip(gt_targets, old_preds)\<close>; the box of a mask depends on the size of the
  image, so \<open>bbox\<close> takes the index of the image.
\<close>

definition generate_psd_targets ::
  "(nat \<Rightarrow> bool list \<Rightarrow> 'b) \<Rightarrow> bool \<Rightarrow> real \<Rightarrow> bool \<Rightarrow> nat \<Rightarrow> 'b target list
     \<Rightarrow> 'b prediction list \<Rightarrow> 'b target list \<times> 'b target list" where
  "generate_psd_targets bbox strict_mode psd_overlap_threshold combine_psdlabel npix
       gt_targets old_preds =
     (let rs = map (\<lambda>(i, gt_target, old_pred).
                      generate_psd_target (bbox i) strict_mode psd_overlap_threshold
                        combine_psdlabel npix gt_target old_pred)
                 (zip [0 ..< length gt_targets] (zip gt_targets old_preds))
      in (map fst rs, map snd rs))"

text \<open>The pixel-wise AND of a mask with the ground-truth region.\<close>

definition and_region :: "bool list \<Rightarrow> int list \<Rightarrow> bool list" where
  "and_region m region = map (\<lambda>(b, g). b \<and> g \<noteq> 0) (zip m region)"


section \<open>Properties\<close>

subsection \<open>Helper lemmas\<close>

lemma py_max_fold_ge: "y \<le> fold max xs (y::int)"
proof (induction xs arbitrary: y)
  case Nil
  show ?case by simp
next
  case (Cons a xs)
  have "y \<le> max a y" by simp
  also have "max a y \<le> fold max xs (max a y)" by (rule Cons.IH)
  finally show ?case by simp
qed

lemma py_max_fold_mem: "x \<in> set xs \<Longrightarrow> x \<le> fold max xs (y::int)"
proof (induction xs arbitrary: y)
  case Nil
  then show ?case by simp
next
  case (Cons a xs)
  show ?case
  proof (cases "x = a")
    case True
    have "a \<le> max a y" by simp
    also have "max a y \<le> fold max xs (max a y)" by (rule py_max_fold_ge)
    finally show ?thesis using True by simp
  next
    case False
    with Cons.prems have "x \<in> set xs" by simp
    then show ?thesis using Cons.IH by simp
  qed
qed

lemma py_max_upper: "x \<in> set xs \<Longrightarrow> x \<le> py_max xs"
  by (cases xs) (auto simp: py_max_fold_ge py_max_fold_mem)

lemma py_max_fold_in: "fold max xs (y::int) \<in> insert y (set xs)"
proof (induction xs arbitrary: y)
  case Nil
  show ?case by simp
next
  case (Cons a xs)
  have step: "fold max xs (max a y) \<in> insert (max a y) (set xs)" by (rule Cons.IH)
  have "max a y = a \<or> max a y = y" by (simp add: max_def)
  then show ?case
  proof
    assume "max a y = a"
    with step show ?thesis by auto
  next
    assume "max a y = y"
    with step show ?thesis by auto
  qed
qed

lemma py_max_in: "xs \<noteq> [] \<Longrightarrow> py_max xs \<in> set xs"
  using py_max_fold_in by (cases xs) auto

lemma py_max_eq_Max: "xs \<noteq> [] \<Longrightarrow> py_max xs = Max (set xs)"
  by (rule sym, rule Max_eqI) (auto simp: py_max_upper py_max_in)

lemma extend_labels_length: "length (extend_labels ts fqls) = length ts"
  by (induction ts fqls rule: extend_labels.induct) simp_all

lemma extend_labels_nth:
  "length fqls = length ts \<Longrightarrow> i < length ts \<Longrightarrow>
   extend_labels ts fqls ! i = (ts ! i)\<lparr>labels := labels (ts ! i) @ fqls ! i\<rparr>"
proof (induction ts fqls arbitrary: i rule: extend_labels.induct)
  case (1 t ts fql fqls)
  then show ?case by (cases i) simp_all
qed simp_all


subsection \<open>The loss normalizer\<close>

text \<open>
  Claim C6. The normalizer \<open>num_masks\<close> of \<open>SetCriterion.forward\<close> (the target count
  summed over the workers, divided by the world size, clamped from below at 1) is at least
  1 for every batch and every process group, so it is never zero; for a batch without any
  target on a single worker it is exactly 1.
\<close>

theorem num_masks_ge_one:
  "1 \<le> num_masks grp cts
   \<and> num_masks grp cts \<noteq> 0
   \<and> num_masks None ([] :: 'b target list) = 1"
proof -
  have ge: "1 \<le> num_masks grp ts" for ts :: "'a target list"
    unfolding num_masks_def by (rule max.cobounded2)
  have "num_masks None ([] :: 'b target list) = 1"
    by (simp add: num_masks_def count_targets_def all_reduce_def get_world_size_def)
  moreover have "num_masks grp cts \<noteq> 0"
    using ge [of cts] by simp
  ultimately show ?thesis
    using ge [of cts] by simp
qed


subsection \<open>Removing the fake queries\<close>

lemma remove_fake_query_tensor_take:
  assumes "tensor_ok v"
  shows "remove_fake_query_tensor v
         = \<lparr>shape1 = min 100 (shape1 v), slots = map (take 100) (slots v)\<rparr>"
proof (cases "100 < shape1 v")
  case True
  have rows: "slice_upto_neg (shape1 v - 100) r = take 100 r" if "r \<in> set (slots v)" for r
  proof -
    from assms that have "length r = shape1 v" by (simp add: tensor_ok_def list_all_iff)
    with True show ?thesis by (simp add: slice_upto_neg_def)
  qed
  have "map (slice_upto_neg (shape1 v - 100)) (slots v) = map (take 100) (slots v)"
    using rows by simp
  moreover have "nat (int (shape1 v) - 100) = shape1 v - 100" by simp
  ultimately show ?thesis using True
    by (simp add: remove_fake_query_tensor_def Let_def min_def)
next
  case False
  have rows: "take 100 r = r" if "r \<in> set (slots v)" for r
  proof -
    from assms that have "length r = shape1 v" by (simp add: tensor_ok_def list_all_iff)
    with False show ?thesis by simp
  qed
  have "map (take 100) (slots v) = slots v"
    using rows by (simp add: map_idI)
  then show ?thesis using False
    by (simp add: remove_fake_query_tensor_def Let_def min_def)
qed

text \<open>
  Claim C8, as amended. \<open>_remove_fake_query\<close> does not look at \<open>vq_number\<close>: a tensor
  with more than 100 query slots keeps its first 100 slots, any other tensor is passed to
  the matcher unchanged. This is the removal of the last \<open>vq_number\<close> slots whenever the
  tensor carries exactly 100 real query slots followed by the \<open>vq_number\<close> fake ones.
\<close>

theorem remove_fake_query_keeps_first_100:
  assumes "tensor_ok v"
  shows "remove_fake_query_tensor v
           = \<lparr>shape1 = min 100 (shape1 v), slots = map (take 100) (slots v)\<rparr>
         \<and> (shape1 v = 100 + vq_number \<longrightarrow>
              remove_fake_query_tensor v = spec_truncate_last vq_number v)"
proof -
  have first: "remove_fake_query_tensor v
           = \<lparr>shape1 = min 100 (shape1 v), slots = map (take 100) (slots v)\<rparr>"
    using assms by (rule remove_fake_query_tensor_take)
  have "remove_fake_query_tensor v = spec_truncate_last vq_number v"
    if n: "shape1 v = 100 + vq_number"
  proof -
    have "take (length r - vq_number) r = take 100 r" if "r \<in> set (slots v)" for r
    proof -
      from assms that have "length r = shape1 v" by (simp add: tensor_ok_def list_all_iff)
      with n show ?thesis by simp
    qed
    then have "map (\<lambda>r. take (length r - vq_number) r) (slots v) = map (take 100) (slots v)"
      by simp
    with first n show ?thesis by (simp add: spec_truncate_last_def)
  qed
  with first show ?thesis by blast
qed

theorem remove_fake_query_keeps_first_100_witness:
  "tensor_ok \<lparr>shape1 = 102, slots = [replicate 102 (0::nat)]\<rparr>
   \<and> remove_fake_query_tensor \<lparr>shape1 = 102, slots = [replicate 102 (0::nat)]\<rparr>
       = \<lparr>shape1 = 100, slots = [replicate 100 0]\<rparr>
   \<and> remove_fake_query_tensor \<lparr>shape1 = 102, slots = [replicate 102 (0::nat)]\<rparr>
       = spec_truncate_last 2 \<lparr>shape1 = 102, slots = [replicate 102 (0::nat)]\<rparr>"
proof -
  have ok: "tensor_ok \<lparr>shape1 = 102, slots = [replicate 102 (0::nat)]\<rparr>"
    by (simp add: tensor_ok_def)
  note th = remove_fake_query_keeps_first_100 [OF ok, of 2]
  from th have a: "remove_fake_query_tensor \<lparr>shape1 = 102, slots = [replicate 102 (0::nat)]\<rparr>
       = \<lparr>shape1 = 100, slots = [replicate 100 0]\<rparr>"
    by simp
  have n: "shape1 \<lparr>shape1 = 102, slots = [replicate 102 (0::nat)]\<rparr> = 100 + 2" by simp
  from th n have b: "remove_fake_query_tensor \<lparr>shape1 = 102, slots = [replicate 102 (0::nat)]\<rparr>
       = spec_truncate_last 2 \<lparr>shape1 = 102, slots = [replicate 102 (0::nat)]\<rparr>"
    by blast
  from ok a b show ?thesis by (intro conjI)
qed

text \<open>
  With 3 real query slots followed by 2 fake ones the tensor reaches the matcher with all
  5 slots, where cutting off the last \<open>vq_number = 2\<close> slots would leave 3.
\<close>

theorem remove_fake_query_not_last_vq:
  "remove_fake_query_tensor \<lparr>shape1 = 5, slots = [[10, 11, 12, 13, 14 :: nat]]\<rparr>
     = \<lparr>shape1 = 5, slots = [[10, 11, 12, 13, 14]]\<rparr>
   \<and> spec_truncate_last 2 \<lparr>shape1 = 5, slots = [[10, 11, 12, 13, 14 :: nat]]\<rparr>
     = \<lparr>shape1 = 3, slots = [[10, 11, 12]]\<rparr>
   \<and> remove_fake_query_tensor \<lparr>shape1 = 5, slots = [[10, 11, 12, 13, 14 :: nat]]\<rparr>
     \<noteq> spec_truncate_last 2 \<lparr>shape1 = 5, slots = [[10, 11, 12, 13, 14 :: nat]]\<rparr>"
  by (simp add: remove_fake_query_tensor_def spec_truncate_last_def)


subsection \<open>Splicing the fake queries back in\<close>

lemma modify_indice_fst:
  "fst (modify_indice vq indice) = fst indice @ map int [100 ..< 100 + vq]"
  by (simp add: modify_indice_def Let_def)

lemma modify_indice_snd:
  "snd (modify_indice vq indice)
     = snd indice @ map (\<lambda>i. (if snd indice = [] then - 1 else Max (set (snd indice))) + int i + 1)
                      [0 ..< vq]"
  by (simp add: modify_indice_def Let_def py_max_eq_Max)

text \<open>
  Claim C4. For fake query labels that are not \<open>None\<close> and pass the length assertion of
  \<open>_modify_indices_targets_for_fake_query\<close>, the function returns, and for every image
  the returned match has \<open>vq_number\<close> more entries on the prediction side (the slots 100,
  101, ...) and on the target side; the appended target indices are consecutive, start one
  above the largest matched target index (at 0 for an empty match) and so exceed every
  earlier target index; the labels of the image's target are extended by its fake query
  labels.
\<close>

theorem modify_indices_targets_appends_vq:
  assumes lens: "length fqls = length targets" "length targets = length indices"
    and i: "i < length indices"
  shows "\<exists>new_indices new_targets.
           modify_indices_targets_for_fake_query vq_number indices targets (Some fqls)
             = Inr (new_indices, new_targets)
         \<and> length new_indices = length indices
         \<and> length new_targets = length targets
         \<and> fst (new_indices ! i) = fst (indices ! i) @ map int [100 ..< 100 + vq_number]
         \<and> length (fst (new_indices ! i)) = length (fst (indices ! i)) + vq_number
         \<and> snd (new_indices ! i)
             = snd (indices ! i)
               @ map (\<lambda>j. (if snd (indices ! i) = [] then - 1 else Max (set (snd (indices ! i))))
                            + 1 + int j) [0 ..< vq_number]
         \<and> length (snd (new_indices ! i)) = length (snd (indices ! i)) + vq_number
         \<and> (\<forall>old \<in> set (snd (indices ! i)).
              \<forall>new \<in> set (drop (length (snd (indices ! i))) (snd (new_indices ! i))). old < new)
         \<and> new_targets ! i = (targets ! i)\<lparr>labels := labels (targets ! i) @ fqls ! i\<rparr>"
proof -
  let ?ni = "map (modify_indice vq_number) indices"
  let ?nt = "extend_labels targets fqls"
  let ?m = "if snd (indices ! i) = [] then - 1 else Max (set (snd (indices ! i)))"
  have res: "modify_indices_targets_for_fake_query vq_number indices targets (Some fqls)
               = Inr (?ni, ?nt)"
    using lens by (simp add: modify_indices_targets_for_fake_query_def)
  have nth: "?ni ! i = modify_indice vq_number (indices ! i)"
    using i by simp
  have f: "fst (?ni ! i) = fst (indices ! i) @ map int [100 ..< 100 + vq_number]"
    by (simp only: nth modify_indice_fst)
  have s: "snd (?ni ! i) = snd (indices ! i) @ map (\<lambda>j. ?m + 1 + int j) [0 ..< vq_number]"
    by (simp only: nth modify_indice_snd) (simp add: algebra_simps)
  have gt: "old < new"
    if o: "old \<in> set (snd (indices ! i))"
      and n: "new \<in> set (drop (length (snd (indices ! i))) (snd (?ni ! i)))" for old new
  proof -
    from o have ne: "snd (indices ! i) \<noteq> []" by auto
    with o have "old \<le> Max (set (snd (indices ! i)))" by simp
    moreover from n obtain j where "new = ?m + 1 + int j"
      by (auto simp: s)
    ultimately show ?thesis using ne by simp
  qed
  have t: "?nt ! i = (targets ! i)\<lparr>labels := labels (targets ! i) @ fqls ! i\<rparr>"
    using lens i by (simp add: extend_labels_nth)
  have lf: "length (fst (?ni ! i)) = length (fst (indices ! i)) + vq_number"
    by (simp add: f)
  have ls: "length (snd (?ni ! i)) = length (snd (indices ! i)) + vq_number"
    by (simp add: s)
  have ln: "length ?ni = length indices" by simp
  have lt: "length ?nt = length targets" by (rule extend_labels_length)
  from res ln lt f lf s ls gt t show ?thesis by blast
qed

theorem modify_indices_targets_appends_vq_witness:
  "\<exists>new_indices new_targets.
      modify_indices_targets_for_fake_query 3 [([4, 7], [1, 0])]
        [\<lparr>labels = [20, 21], masks = [[True], [False]], boxes = [(), ()]\<rparr>] (Some [[5, 5, 6]])
        = Inr (new_indices, new_targets)
    \<and> fst (new_indices ! 0) = [4, 7, 100, 101, 102]
    \<and> snd (new_indices ! 0) = [1, 0, 2, 3, 4]
    \<and> new_targets ! 0
        = \<lparr>labels = [20, 21, 5, 5, 6], masks = [[True], [False]], boxes = [(), ()]\<rparr>"
  using modify_indices_targets_appends_vq [of "[[5, 5, 6]]"
      "[\<lparr>labels = [20, 21], masks = [[True], [False]], boxes = [(), ()]\<rparr>]"
      "[([4, 7], [1, 0])]" 0 3]
  by (simp add: upt_rec numeral_nat) blast


subsection \<open>The complete targets\<close>

lemma is_memory_iff:
  "is_memory ids t \<longleftrightarrow> (\<exists>l \<in> set (labels t). l \<notin> set ids)"
  by (auto simp: is_memory_def filter_empty_conv)

lemma target_rebuild:
  "\<lparr>labels = labels t, masks = masks t, boxes = boxes t\<rparr> = (t :: 'b target)"
  by (cases t) simp

lemma complete_psd_targets_some:
  "complete_psd_targets (Some ids) ts (Some ps) (Some os)
     = Inr (map (\<lambda>(m, p, t). if m then t else concat_target p t)
              (zip (map (is_memory ids) ts) (zip ps ts)))"
  by (auto simp add: complete_psd_targets_def memory_part_def target_rebuild)

lemma fused_nth:
  assumes "length ps = length ts" and "i < length ts"
  shows "map (\<lambda>(m, p, t). if m then t else concat_target p t)
           (zip (map (is_memory ids) ts) (zip ps ts)) ! i
         = (if is_memory ids (ts ! i) then ts ! i else concat_target (ps ! i) (ts ! i))"
  using assms by simp

text \<open>
  Claim C3. In \<open>SetCriterion.forward\<close>, with pseudo targets and old targets given for
  every image, the complete target of an image whose real labels contain a class outside
  \<open>current_catagory_ids\<close> is the real target alone, with its labels, masks and boxes
  unchanged; the complete target of any other image is the pseudo target followed by the
  real target.
\<close>

theorem complete_psd_targets_memory_image:
  assumes "length ps = length ts" and "i < length ts"
  shows "\<exists>cs. complete_psd_targets (Some ids) ts (Some ps) (Some os) = Inr cs
           \<and> length cs = length ts
           \<and> cs ! i = (if (\<exists>l \<in> set (labels (ts ! i)). l \<notin> set ids)
                       then ts ! i
                       else concat_target (ps ! i) (ts ! i))"
proof -
  let ?cs = "map (\<lambda>(m, p, t). if m then t else concat_target p t)
              (zip (map (is_memory ids) ts) (zip ps ts))"
  have "length ?cs = length ts" using assms(1) by simp
  moreover have "?cs ! i = (if (\<exists>l \<in> set (labels (ts ! i)). l \<notin> set ids)
                       then ts ! i else concat_target (ps ! i) (ts ! i))"
    using fused_nth [OF assms, of ids] by (simp only: is_memory_iff)
  ultimately show ?thesis
    using complete_psd_targets_some [of ids ts ps os] by blast
qed

theorem complete_psd_targets_memory_image_witness:
  "(\<exists>cs. complete_psd_targets (Some [5, 6])
            [\<lparr>labels = [5, 2], masks = [[True], [False]], boxes = [(), ()]\<rparr>,
             \<lparr>labels = [6], masks = [[True]], boxes = [()]\<rparr>]
            (Some [\<lparr>labels = [1], masks = [[False]], boxes = [()]\<rparr>,
                   \<lparr>labels = [3], masks = [[False]], boxes = [()]\<rparr>])
            (Some []) = Inr cs
      \<and> cs ! 0 = \<lparr>labels = [5, 2], masks = [[True], [False]], boxes = [(), ()]\<rparr>)
   \<and> (\<exists>cs. complete_psd_targets (Some [5, 6])
            [\<lparr>labels = [5, 2], masks = [[True], [False]], boxes = [(), ()]\<rparr>,
             \<lparr>labels = [6], masks = [[True]], boxes = [()]\<rparr>]
            (Some [\<lparr>labels = [1], masks = [[False]], boxes = [()]\<rparr>,
                   \<lparr>labels = [3], masks = [[False]], boxes = [()]\<rparr>])
            (Some []) = Inr cs
      \<and> cs ! 1 = \<lparr>labels = [3, 6], masks = [[False], [True]], boxes = [(), ()]\<rparr>)"
proof
  show "\<exists>cs. complete_psd_targets (Some [5, 6])
            [\<lparr>labels = [5, 2], masks = [[True], [False]], boxes = [(), ()]\<rparr>,
             \<lparr>labels = [6], masks = [[True]], boxes = [()]\<rparr>]
            (Some [\<lparr>labels = [1], masks = [[False]], boxes = [()]\<rparr>,
                   \<lparr>labels = [3], masks = [[False]], boxes = [()]\<rparr>])
            (Some []) = Inr cs
      \<and> cs ! 0 = \<lparr>labels = [5, 2], masks = [[True], [False]], boxes = [(), ()]\<rparr>"
    using complete_psd_targets_memory_image
      [of "[\<lparr>labels = [1], masks = [[False]], boxes = [()]\<rparr>,
            \<lparr>labels = [3], masks = [[False]], boxes = [()]\<rparr>]"
          "[\<lparr>labels = [5, 2], masks = [[True], [False]], boxes = [(), ()]\<rparr>,
            \<lparr>labels = [6], masks = [[True]], boxes = [()]\<rparr>]" 0 "[5, 6]" "[]"]
    by simp blast
  show "\<exists>cs. complete_psd_targets (Some [5, 6])
            [\<lparr>labels = [5, 2], masks = [[True], [False]], boxes = [(), ()]\<rparr>,
             \<lparr>labels = [6], masks = [[True]], boxes = [()]\<rparr>]
            (Some [\<lparr>labels = [1], masks = [[False]], boxes = [()]\<rparr>,
                   \<lparr>labels = [3], masks = [[False]], boxes = [()]\<rparr>])
            (Some []) = Inr cs
      \<and> cs ! 1 = \<lparr>labels = [3, 6], masks = [[False], [True]], boxes = [(), ()]\<rparr>"
    using complete_psd_targets_memory_image
      [of "[\<lparr>labels = [1], masks = [[False]], boxes = [()]\<rparr>,
            \<lparr>labels = [3], masks = [[False]], boxes = [()]\<rparr>]"
          "[\<lparr>labels = [5, 2], masks = [[True], [False]], boxes = [(), ()]\<rparr>,
            \<lparr>labels = [6], masks = [[True]], boxes = [()]\<rparr>]" 1 "[5, 6]" "[]"]
    by (simp add: concat_target_def) blast
qed

subsection \<open>The pass that stores the fake queries\<close>

lemma store_complete_nth:
  assumes "length ps = length ts" and "i < length ts"
  shows "store_complete_psd_targets (Some ps) ts ! i = concat_target (ps ! i) (ts ! i)"
  using assms by (simp add: store_complete_psd_targets_def)

text \<open>
  Claim C10. In the pass of \<open>MaskFormer.forward\<close> that stores the fake queries, with an
  old model present, the target of every image handed to the matcher is the pseudo target
  followed by the real target, whether or not the image is a memory image, and the
  prediction tensors are \<open>outputs_without_aux\<close> with their fake query slots still in
  place; the loss path removes the fake queries and keeps the real target alone for a
  memory image.
\<close>

theorem store_matcher_args_no_exemption:
  assumes "length ps = length ts" and "i < length ts"
  shows "\<exists>cs ls. store_matcher_args outputs (Some ps) ts = (outputs_without_aux outputs, cs)
           \<and> length cs = length ts
           \<and> cs ! i = concat_target (ps ! i) (ts ! i)
           \<and> loss_matcher_args (Some ids) outputs ts (Some ps) (Some os)
               = Inr (remove_fake_query (outputs_without_aux outputs), ls)
           \<and> ls ! i = (if is_memory ids (ts ! i) then ts ! i
                       else concat_target (ps ! i) (ts ! i))"
proof -
  let ?cs = "store_complete_psd_targets (Some ps) ts"
  let ?ls = "map (\<lambda>(m, p, t). if m then t else concat_target p t)
              (zip (map (is_memory ids) ts) (zip ps ts))"
  have a: "store_matcher_args outputs (Some ps) ts = (outputs_without_aux outputs, ?cs)"
    by (simp add: store_matcher_args_def)
  have b: "length ?cs = length ts"
    using assms(1) by (simp add: store_complete_psd_targets_def)
  have c: "?cs ! i = concat_target (ps ! i) (ts ! i)"
    using assms by (rule store_complete_nth)
  have d: "loss_matcher_args (Some ids) outputs ts (Some ps) (Some os)
               = Inr (remove_fake_query (outputs_without_aux outputs), ?ls)"
    by (simp add: loss_matcher_args_def complete_psd_targets_some)
  have e: "?ls ! i = (if is_memory ids (ts ! i) then ts ! i
                       else concat_target (ps ! i) (ts ! i))"
    using assms by (rule fused_nth)
  from a b c d e show ?thesis by blast
qed

theorem store_matcher_args_no_exemption_witness:
  "\<exists>cs ls. store_matcher_args
        [(''pred_logits'', \<lparr>shape1 = 102, slots = [replicate 102 (0::nat)]\<rparr>),
         (''topk_feats_info'', \<lparr>shape1 = 1, slots = [[0]]\<rparr>)]
        (Some [\<lparr>labels = [1], masks = [[False]], boxes = [()]\<rparr>])
        [\<lparr>labels = [2], masks = [[True]], boxes = [()]\<rparr>]
       = ([(''pred_logits'', \<lparr>shape1 = 102, slots = [replicate 102 0]\<rparr>)], cs)
     \<and> cs ! 0 = \<lparr>labels = [1, 2], masks = [[False], [True]], boxes = [(), ()]\<rparr>
     \<and> loss_matcher_args (Some [5])
        [(''pred_logits'', \<lparr>shape1 = 102, slots = [replicate 102 (0::nat)]\<rparr>),
         (''topk_feats_info'', \<lparr>shape1 = 1, slots = [[0]]\<rparr>)]
        [\<lparr>labels = [2], masks = [[True]], boxes = [()]\<rparr>]
        (Some [\<lparr>labels = [1], masks = [[False]], boxes = [()]\<rparr>]) (Some [])
       = Inr ([(''pred_logits'', \<lparr>shape1 = 100, slots = [replicate 100 0]\<rparr>)], ls)
     \<and> ls ! 0 = \<lparr>labels = [2], masks = [[True]], boxes = [()]\<rparr>"
  using store_matcher_args_no_exemption
    [of "[\<lparr>labels = [1], masks = [[False]], boxes = [()]\<rparr>]"
        "[\<lparr>labels = [2], masks = [[True]], boxes = [()]\<rparr>]" 0
        "[(''pred_logits'', \<lparr>shape1 = 102, slots = [replicate 102 (0::nat)]\<rparr>),
          (''topk_feats_info'', \<lparr>shape1 = 1, slots = [[0]]\<rparr>)]" "[5]" "[]"]
  by (simp add: concat_target_def is_memory_def outputs_without_aux_def remove_fake_query_def
      remove_fake_query_tensor_def slice_upto_neg_def) blast


subsection \<open>The schedule of the losses\<close>

lemma then_calls_Inr:
  "then_calls r rest = Inr cs \<Longrightarrow> \<exists>c ds. r = Inr c \<and> rest = Inr ds \<and> cs = c # ds"
  by (auto simp: then_calls_def split: sum.splits)

lemma seq_calls_Inr:
  "seq_calls r rest = Inr cs \<Longrightarrow> \<exists>bs ds. r = Inr bs \<and> rest = Inr ds \<and> cs = bs @ ds"
  by (auto simp: seq_calls_def split: sum.splits)

lemma get_loss_Inr: "get_loss sc loss arg = Inr call \<Longrightarrow> call = (sc, loss, arg)"
  by (auto simp: get_loss_def split: if_splits)

lemma kd_calls_Cons:
  "kd_calls ((sc, loss, arg) # cs)
     = (if loss = ''kd'' then (sc, loss, arg) # kd_calls cs else kd_calls cs)"
  by (simp add: kd_calls_def)

lemma kd_calls_append: "kd_calls (cs @ ds) = kd_calls cs @ kd_calls ds"
  by (simp add: kd_calls_def)

lemma primary_losses_kd:
  "primary_losses c ls = Inr cs \<Longrightarrow>
   kd_calls cs = (if kd_deocder c
                  then replicate (count_list ls ''kd'')
                         (Primary, ''kd'', Temperature (kd_temperature2 c))
                  else [])"
proof (induction ls arbitrary: cs)
  case Nil
  then show ?case by (simp add: kd_calls_def)
next
  case (Cons loss rest)
  show ?case
  proof (cases "loss = ''kd''")
    case True
    show ?thesis
    proof (cases "kd_deocder c")
      case False
      with True Cons.prems have "primary_losses c rest = Inr cs" by simp
      from Cons.IH [OF this] False show ?thesis by simp
    next
      case kd: True
      with True Cons.prems have
        "then_calls (get_loss Primary ''kd'' (Temperature (kd_temperature2 c)))
           (primary_losses c rest) = Inr cs" by simp
      from then_calls_Inr [OF this] obtain call ds where
        g: "get_loss Primary ''kd'' (Temperature (kd_temperature2 c)) = Inr call"
        and r: "primary_losses c rest = Inr ds" and cs: "cs = call # ds" by blast
      from get_loss_Inr [OF g] have call: "call = (Primary, ''kd'', Temperature (kd_temperature2 c))" .
      from Cons.IH [OF r] kd have "kd_calls ds = replicate (count_list rest ''kd'')
                         (Primary, ''kd'', Temperature (kd_temperature2 c))" by simp
      with cs call kd True show ?thesis by (simp add: kd_calls_Cons)
    qed
  next
    case False
    with Cons.prems obtain arg where
      "then_calls (get_loss Primary loss arg) (primary_losses c rest) = Inr cs"
      by (auto split: if_splits)
    from then_calls_Inr [OF this] obtain call ds where
      g: "get_loss Primary loss arg = Inr call"
      and r: "primary_losses c rest = Inr ds" and cs: "cs = call # ds" by blast
    from get_loss_Inr [OF g] have call: "call = (Primary, loss, arg)" .
    from cs call False have "kd_calls cs = kd_calls ds" by (simp add: kd_calls_Cons)
    with Cons.IH [OF r] False show ?thesis by simp
  qed
qed

lemma aux_losses_kd: "aux_losses c i ls = Inr cs \<Longrightarrow> kd_calls cs = []"
proof (induction ls arbitrary: cs)
  case Nil
  then show ?case by (simp add: kd_calls_def)
next
  case (Cons loss rest)
  show ?case
  proof (cases "loss = ''kd''")
    case True
    with Cons.prems have "aux_losses c i rest = Inr cs" by simp
    from Cons.IH [OF this] show ?thesis .
  next
    case False
    with Cons.prems obtain arg where
      "then_calls (get_loss (Aux i) loss arg) (aux_losses c i rest) = Inr cs"
      by (auto split: if_splits)
    from then_calls_Inr [OF this] obtain call ds where
      g: "get_loss (Aux i) loss arg = Inr call"
      and r: "aux_losses c i rest = Inr ds" and cs: "cs = call # ds" by blast
    from get_loss_Inr [OF g] have call: "call = (Aux i, loss, arg)" .
    from cs call False have "kd_calls cs = kd_calls ds" by (simp add: kd_calls_Cons)
    with Cons.IH [OF r] show ?thesis by simp
  qed
qed

lemma all_aux_losses_kd: "all_aux_losses c is = Inr cs \<Longrightarrow> kd_calls cs = []"
proof (induction "is" arbitrary: cs)
  case Nil
  then show ?case by (simp add: kd_calls_def)
next
  case (Cons i rest)
  from Cons.prems have "seq_calls (aux_losses c i (losses c)) (all_aux_losses c rest) = Inr cs"
    by simp
  from seq_calls_Inr [OF this] obtain bs ds where
    a: "aux_losses c i (losses c) = Inr bs" and r: "all_aux_losses c rest = Inr ds"
    and cs: "cs = bs @ ds" by blast
  from aux_losses_kd [OF a] Cons.IH [OF r] cs show ?case by (simp add: kd_calls_append)
qed

lemma interm_losses_kd:
  "interm_losses c ls = Inr cs \<Longrightarrow>
   kd_calls cs = replicate (count_list ls ''kd'') (Interm, ''kd'', Temperature (kd_temperature c))"
proof (induction ls arbitrary: cs)
  case Nil
  then show ?case by (simp add: kd_calls_def)
next
  case (Cons loss rest)
  show ?case
  proof (cases "loss = ''kd''")
    case True
    with Cons.prems have
      "then_calls (get_loss Interm ''kd'' (Temperature (kd_temperature c)))
         (interm_losses c rest) = Inr cs" by simp
    from then_calls_Inr [OF this] obtain call ds where
      g: "get_loss Interm ''kd'' (Temperature (kd_temperature c)) = Inr call"
      and r: "interm_losses c rest = Inr ds" and cs: "cs = call # ds" by blast
    from get_loss_Inr [OF g] have call: "call = (Interm, ''kd'', Temperature (kd_temperature c))" .
    from Cons.IH [OF r] cs call True show ?thesis by (simp add: kd_calls_Cons)
  next
    case False
    with Cons.prems obtain arg where
      "then_calls (get_loss Interm loss arg) (interm_losses c rest) = Inr cs"
      by (auto split: if_splits)
    from then_calls_Inr [OF this] obtain call ds where
      g: "get_loss Interm loss arg = Inr call"
      and r: "interm_losses c rest = Inr ds" and cs: "cs = call # ds" by blast
    from get_loss_Inr [OF g] have call: "call = (Interm, loss, arg)" .
    from cs call False have "kd_calls cs = kd_calls ds" by (simp add: kd_calls_Cons)
    with Cons.IH [OF r] False show ?thesis by simp
  qed
qed

text \<open>
  Claim C7, as amended. When \<open>SetCriterion.forward\<close> returns, its calls of the \<open>kd\<close>
  loss are, for each occurrence of \<open>kd\<close> in the requested losses, one for the primary
  scope with \<open>kd_temperature2\<close>, made only when \<open>kd_deocder\<close> is set, and one for the
  interm scope with \<open>kd_temperature\<close>, made only when the outputs carry
  \<open>interm_outputs\<close>; there is none for an auxiliary scope. With \<open>kd\<close> requested once,
  \<open>kd_deocder\<close> set and \<open>interm_outputs\<close> present these are exactly two calls.
\<close>

theorem kd_calls_of_forward:
  assumes "forward_loss_calls c aux_outputs interm_outputs = Inr calls"
  shows "kd_calls calls
           = (if kd_deocder c
              then replicate (count_list (losses c) ''kd'')
                     (Primary, ''kd'', Temperature (kd_temperature2 c))
              else [])
             @ (if interm_outputs
                then replicate (count_list (losses c) ''kd'')
                       (Interm, ''kd'', Temperature (kd_temperature c))
                else [])"
proof -
  from assms obtain ps rest where
    p: "primary_losses c (losses c) = Inr ps"
    and rest: "seq_calls
          (case aux_outputs of None \<Rightarrow> Inr [] | Some n \<Rightarrow> all_aux_losses c [0 ..< n])
          (if interm_outputs then interm_losses c (losses c) else Inr []) = Inr rest"
    and calls: "calls = ps @ rest"
    unfolding forward_loss_calls_def by (blast dest: seq_calls_Inr)
  from seq_calls_Inr [OF rest] obtain as ms where
    a: "(case aux_outputs of None \<Rightarrow> Inr [] | Some n \<Rightarrow> all_aux_losses c [0 ..< n]) = Inr as"
    and m: "(if interm_outputs then interm_losses c (losses c) else Inr []) = Inr ms"
    and r: "rest = as @ ms" by blast
  have ka: "kd_calls as = []"
  proof (cases aux_outputs)
    case None
    with a show ?thesis by (simp add: kd_calls_def)
  next
    case (Some n)
    with a have "all_aux_losses c [0 ..< n] = Inr as" by simp
    then show ?thesis by (rule all_aux_losses_kd)
  qed
  have km: "kd_calls ms = (if interm_outputs
                then replicate (count_list (losses c) ''kd'')
                       (Interm, ''kd'', Temperature (kd_temperature c))
                else [])"
  proof (cases interm_outputs)
    case True
    with m have "interm_losses c (losses c) = Inr ms" by simp
    from interm_losses_kd [OF this] True show ?thesis by simp
  next
    case False
    with m show ?thesis by (simp add: kd_calls_def)
  qed
  from calls r ka km primary_losses_kd [OF p] show ?thesis
    by (simp add: kd_calls_append)
qed

theorem kd_calls_of_forward_witness:
  "forward_loss_calls
      \<lparr>losses = [''labels'', ''masks'', ''kd''], kd_deocder = True,
       kd_temperature = 1, kd_temperature2 = 2\<rparr> (Some 2) True
     = Inr [(Primary, ''labels'', FakeIndices), (Primary, ''masks'', Indices),
            (Primary, ''kd'', Temperature 2),
            (Aux 0, ''labels'', FakeIndices), (Aux 0, ''masks'', Indices),
            (Aux 1, ''labels'', FakeIndices), (Aux 1, ''masks'', Indices),
            (Interm, ''labels'', FakeIndices), (Interm, ''masks'', Indices),
            (Interm, ''kd'', Temperature 1)]
   \<and> kd_calls [(Primary, ''labels'', FakeIndices), (Primary, ''masks'', Indices),
            (Primary, ''kd'', Temperature 2),
            (Aux 0, ''labels'', FakeIndices), (Aux 0, ''masks'', Indices),
            (Aux 1, ''labels'', FakeIndices), (Aux 1, ''masks'', Indices),
            (Interm, ''labels'', FakeIndices), (Interm, ''masks'', Indices),
            (Interm, ''kd'', Temperature 1)]
     = [(Primary, ''kd'', Temperature 2), (Interm, ''kd'', Temperature 1)]"
proof -
  have run: "forward_loss_calls
      \<lparr>losses = [''labels'', ''masks'', ''kd''], kd_deocder = True,
       kd_temperature = 1, kd_temperature2 = 2\<rparr> (Some 2) True
     = Inr [(Primary, ''labels'', FakeIndices), (Primary, ''masks'', Indices),
            (Primary, ''kd'', Temperature 2),
            (Aux 0, ''labels'', FakeIndices), (Aux 0, ''masks'', Indices),
            (Aux 1, ''labels'', FakeIndices), (Aux 1, ''masks'', Indices),
            (Interm, ''labels'', FakeIndices), (Interm, ''masks'', Indices),
            (Interm, ''kd'', Temperature 1)]"
    by (simp add: forward_loss_calls_def seq_calls_def then_calls_def get_loss_def
        upt_rec numeral_nat)
  from kd_calls_of_forward [OF run] run show ?thesis by simp
qed

text \<open>
  With \<open>kd\<close> requested and \<open>kd_deocder\<close> switched off, the primary scope skips the
  loss and it is computed once, for the interm scope.
\<close>

theorem kd_not_twice_without_kd_decoder:
  "forward_loss_calls
      \<lparr>losses = [''labels'', ''kd''], kd_deocder = False,
       kd_temperature = 1, kd_temperature2 = 2\<rparr> (Some 1) True
     = Inr [(Primary, ''labels'', FakeIndices),
            (Aux 0, ''labels'', FakeIndices),
            (Interm, ''labels'', FakeIndices), (Interm, ''kd'', Temperature 1)]
   \<and> kd_calls [(Primary, ''labels'', FakeIndices),
            (Aux 0, ''labels'', FakeIndices),
            (Interm, ''labels'', FakeIndices), (Interm, ''kd'', Temperature 1)]
     = [(Interm, ''kd'', Temperature 1)]
   \<and> length [(Interm, ''kd'', Temperature (1::real))] \<noteq> 2"
  by (simp add: forward_loss_calls_def seq_calls_def then_calls_def get_loss_def kd_calls_def
      upt_rec numeral_nat)


subsection \<open>The replay cache\<close>

lemma deque_append_maxlen: "maxlen (deque_append d x) = maxlen d"
  by (simp add: deque_append_def Let_def)

lemma deque_append_items:
  "items (deque_append d x) = take_last (maxlen d) (items d @ [x])"
  if "length (items d) \<le> maxlen d"
proof (cases "length (items d @ [x]) > maxlen d")
  case True
  with that have "maxlen d = length (items d)" by simp
  then have "take_last (maxlen d) (items d @ [x]) = tl (items d @ [x])"
    by (cases "items d") (simp_all add: take_last_def)
  with True show ?thesis by (simp add: deque_append_def Let_def)
next
  case False
  then show ?thesis by (simp add: deque_append_def Let_def take_last_def)
qed

lemma take_last_length: "length (take_last n xs) \<le> n"
  by (simp add: take_last_def)

lemma take_last_append: "take_last n (take_last n xs @ ys) = take_last n (xs @ ys)"
proof (cases "length xs \<le> n")
  case True
  then show ?thesis by (simp add: take_last_def)
next
  case False
  then show ?thesis
    by (cases "length ys \<le> n") (simp_all add: take_last_def add.commute)
qed

lemma deque_append_bounded:
  "length (items d) \<le> maxlen d \<Longrightarrow> length (items (deque_append d x)) \<le> maxlen d"
  by (simp add: deque_append_items take_last_length)

lemma deque_extend_maxlen: "maxlen (deque_extend d ys) = maxlen d"
  unfolding deque_extend_def
  by (induction ys arbitrary: d) (simp_all add: deque_append_maxlen)

lemma deque_extend_items:
  "length (items d) \<le> maxlen d \<Longrightarrow>
   items (deque_extend d ys) = take_last (maxlen d) (items d @ ys)"
  unfolding deque_extend_def
proof (induction ys arbitrary: d)
  case Nil
  then show ?case by (simp add: take_last_def)
next
  case (Cons y ys)
  have b: "length (items (deque_append d y)) \<le> maxlen (deque_append d y)"
    using Cons.prems by (simp add: deque_append_bounded deque_append_maxlen)
  have "items (fold (\<lambda>y e. deque_append e y) ys (deque_append d y))
          = take_last (maxlen d) (items (deque_append d y) @ ys)"
    using Cons.IH [OF b] by (simp add: deque_append_maxlen)
  also have "\<dots> = take_last (maxlen d) (take_last (maxlen d) (items d @ [y]) @ ys)"
    using Cons.prems by (simp add: deque_append_items)
  also have "\<dots> = take_last (maxlen d) ((items d @ [y]) @ ys)"
    by (rule take_last_append)
  finally show ?case by simp
qed

lemma map_of_dict_set: "map_of (dict_set k v c) = (map_of c)(k \<mapsto> v)"
  by (induction c) (auto simp: fun_eq_iff)

lemma set_dict_set: "set (dict_set k v c) \<subseteq> insert (k, v) (set c)"
  by (induction c) (auto split: if_splits)

lemma buffers_bounded_dict_set:
  assumes "buffers_bounded cap c" and "length (items v) \<le> maxlen v" and "maxlen v \<le> cap"
  shows "buffers_bounded cap (dict_set k v c)"
  using assms set_dict_set [of k v c]
  unfolding buffers_bounded_def list_all_iff by fastforce

lemma buffers_bounded_lookup:
  "buffers_bounded cap c \<Longrightarrow> map_of c k = Some d \<Longrightarrow>
   length (items d) \<le> maxlen d \<and> maxlen d \<le> cap"
  unfolding buffers_bounded_def list_all_iff by (fastforce dest: map_of_SomeD)

lemma store_one_bounded:
  assumes "buffers_bounded cap c" and "lib_size div world_size grp \<le> cap"
  shows "buffers_bounded cap (store_one lib_size grp c gt_class feat)"
proof (cases "map_of c gt_class")
  case None
  let ?d = "deque_factory (lib_size div world_size grp) :: 'a deque"
  have "length (items ?d) \<le> maxlen ?d" by (simp add: deque_factory_def)
  then have "length (items (deque_append ?d feat)) \<le> maxlen (deque_append ?d feat)"
    by (simp add: deque_append_bounded deque_append_maxlen)
  moreover have "maxlen (deque_append ?d feat) \<le> cap"
    using assms(2) by (simp add: deque_append_maxlen deque_factory_def)
  ultimately show ?thesis
    using None assms(1) by (simp add: store_one_def Let_def buffers_bounded_dict_set)
next
  case (Some d)
  from buffers_bounded_lookup [OF assms(1) Some]
  have "length (items d) \<le> maxlen d" and "maxlen d \<le> cap" by simp_all
  then have "length (items (deque_append d feat)) \<le> maxlen (deque_append d feat)"
    and "maxlen (deque_append d feat) \<le> cap"
    by (simp_all add: deque_append_bounded deque_append_maxlen)
  then show ?thesis
    using Some assms(1) by (simp add: store_one_def buffers_bounded_dict_set)
qed

lemma store_pairs_bounded:
  assumes "lib_size div world_size grp \<le> cap"
  shows "buffers_bounded cap c \<Longrightarrow> store_pairs lib_size grp lbls feats c pairs = Inr c' \<Longrightarrow>
         buffers_bounded cap c'"
proof (induction pairs arbitrary: c)
  case Nil
  then show ?case by simp
next
  case (Cons p pairs)
  obtain q l where p: "p = (q, l)" by (cases p)
  from Cons.prems(2) p obtain gt_class feat where
    "store_pairs lib_size grp lbls feats (store_one lib_size grp c gt_class feat) pairs = Inr c'"
    by (auto split: sum.splits)
  moreover have "buffers_bounded cap (store_one lib_size grp c gt_class feat)"
    using Cons.prems(1) assms by (rule store_one_bounded)
  ultimately show ?case using Cons.IH by blast
qed

lemma store_images_bounded:
  assumes "lib_size div world_size grp \<le> cap"
  shows "buffers_bounded cap c \<Longrightarrow>
         store_images lib_size grp med_feats index c its = Inr c' \<Longrightarrow>
         buffers_bounded cap c'"
proof (induction its arbitrary: c index)
  case Nil
  then show ?case by simp
next
  case (Cons it its)
  obtain indice tgt where it: "it = (indice, tgt)" by (cases it)
  show ?case
  proof (cases "zip (fst indice) (snd indice) = []")
    case True
    with Cons.prems(2) it have "store_images lib_size grp med_feats (index + 1) c its = Inr c'"
      by simp
    with Cons.IH Cons.prems(1) show ?thesis by blast
  next
    case False
    with Cons.prems(2) it obtain feats c1 where
      sp: "store_pairs lib_size grp (labels tgt) feats c (zip (fst indice) (snd indice)) = Inr c1"
      and si: "store_images lib_size grp med_feats (index + 1) c1 its = Inr c'"
      by (auto split: sum.splits)
    from store_pairs_bounded [OF assms Cons.prems(1) sp] have "buffers_bounded cap c1" .
    with Cons.IH si show ?thesis by blast
  qed
qed

lemma take_last_take_last: "take_last n (take_last n xs) = take_last n xs"
  using take_last_append [of n xs "[]"] by simp

lemma merged_upto_None:
  "merged_upto lib_size seen c \<Longrightarrow> map_of c k = None \<Longrightarrow> seen k = []"
  unfolding merged_upto_def by (drule spec [of _ k]) simp

lemma merged_upto_Some:
  "merged_upto lib_size seen c \<Longrightarrow> map_of c k = Some d \<Longrightarrow>
   maxlen d = lib_size \<and> items d = take_last lib_size (seen k)"
  unfolding merged_upto_def by (drule spec [of _ k]) simp

lemma merged_uptoI:
  assumes "\<And>k. map_of c k = None \<Longrightarrow> seen k = []"
    and "\<And>k d. map_of c k = Some d \<Longrightarrow>
           maxlen d = lib_size \<and> items d = take_last lib_size (seen k)"
  shows "merged_upto lib_size seen c"
  unfolding merged_upto_def using assms by (simp split: option.split)

lemma combine_one_merged:
  assumes "merged_upto lib_size seen c"
  shows "merged_upto lib_size (seen (fst kv := seen (fst kv) @ items (snd kv)))
           (combine_one lib_size c kv)"
proof -
  define k0 where "k0 = fst kv"
  define ys where "ys = items (snd kv)"
  define d0 where "d0 = (case map_of c k0 of None \<Rightarrow> deque_factory lib_size | Some d \<Rightarrow> d)"
  have d: "maxlen d0 = lib_size \<and> items d0 = take_last lib_size (seen k0)"
  proof (cases "map_of c k0")
    case None
    from merged_upto_None [OF assms None] have "seen k0 = []" .
    with None show ?thesis by (simp add: d0_def deque_factory_def take_last_def)
  next
    case (Some e)
    from merged_upto_Some [OF assms Some] Some show ?thesis by (simp add: d0_def)
  qed
  then have len: "length (items d0) \<le> maxlen d0" by (simp add: take_last_length)
  have "items (deque_extend d0 ys) = take_last (maxlen d0) (items d0 @ ys)"
    using len by (rule deque_extend_items)
  also have "\<dots> = take_last lib_size (take_last lib_size (seen k0) @ ys)"
    using d by simp
  also have "\<dots> = take_last lib_size (seen k0 @ ys)" by (rule take_last_append)
  finally have it: "items (deque_extend d0 ys) = take_last lib_size (seen k0 @ ys)" .
  have ml: "maxlen (deque_extend d0 ys) = lib_size"
    using d by (simp add: deque_extend_maxlen)
  have eq: "combine_one lib_size c kv = dict_set k0 (deque_extend d0 ys) c"
    by (simp add: combine_one_def Let_def k0_def ys_def d0_def)
  have look: "map_of (combine_one lib_size c kv) = (map_of c)(k0 \<mapsto> deque_extend d0 ys)"
    by (simp only: eq map_of_dict_set)
  show ?thesis
  proof (rule merged_uptoI)
    fix k
    assume n: "map_of (combine_one lib_size c kv) k = None"
    then have "k \<noteq> k0" and "map_of c k = None"
      by (auto simp: look split: if_splits)
    with merged_upto_None [OF assms] show "(seen (fst kv := seen (fst kv) @ items (snd kv))) k = []"
      by (simp add: k0_def)
  next
    fix k d
    assume s: "map_of (combine_one lib_size c kv) k = Some d"
    show "maxlen d = lib_size
        \<and> items d = take_last lib_size ((seen (fst kv := seen (fst kv) @ items (snd kv))) k)"
    proof (cases "k = k0")
      case True
      with s have "d = deque_extend d0 ys" by (simp add: look)
      with True it ml show ?thesis by (simp add: k0_def ys_def)
    next
      case False
      with s have "map_of c k = Some d" by (simp add: look)
      from merged_upto_Some [OF assms this] False show ?thesis by (simp add: k0_def)
    qed
  qed
qed

lemma combine_gpu_merged:
  "merged_upto lib_size seen c \<Longrightarrow>
   merged_upto lib_size
     (\<lambda>k. seen k @ concat (map (\<lambda>kv. items (snd kv)) (filter (\<lambda>kv. fst kv = k) g)))
     (fold (\<lambda>kv c. combine_one lib_size c kv) g c)"
proof (induction g arbitrary: seen c)
  case Nil
  then show ?case by simp
next
  case (Cons kv g)
  let ?seen = "seen (fst kv := seen (fst kv) @ items (snd kv))"
  have "merged_upto lib_size ?seen (combine_one lib_size c kv)"
    using Cons.prems by (rule combine_one_merged)
  from Cons.IH [OF this]
  have "merged_upto lib_size
     (\<lambda>k. ?seen k @ concat (map (\<lambda>kv. items (snd kv)) (filter (\<lambda>kv. fst kv = k) g)))
     (fold (\<lambda>kv c. combine_one lib_size c kv) g (combine_one lib_size c kv))" .
  moreover have "(\<lambda>k. ?seen k @ concat (map (\<lambda>kv. items (snd kv)) (filter (\<lambda>kv. fst kv = k) g)))
      = (\<lambda>k. seen k @ concat (map (\<lambda>kv. items (snd kv)) (filter (\<lambda>kv. fst kv = k) (kv # g))))"
    by (auto simp: fun_eq_iff)
  ultimately show ?case by simp
qed

lemma combine_all_merged:
  "merged_upto lib_size seen c \<Longrightarrow>
   merged_upto lib_size (\<lambda>k. seen k @ gathered_items k gs)
     (fold (\<lambda>gpu_collect combined. fold (\<lambda>kv c. combine_one lib_size c kv) gpu_collect combined)
        gs c)"
proof (induction gs arbitrary: seen c)
  case Nil
  then show ?case by (simp add: gathered_items_def)
next
  case (Cons g gs)
  let ?seen = "\<lambda>k. seen k @ concat (map (\<lambda>kv. items (snd kv)) (filter (\<lambda>kv. fst kv = k) g))"
  have "merged_upto lib_size ?seen (fold (\<lambda>kv c. combine_one lib_size c kv) g c)"
    using Cons.prems by (rule combine_gpu_merged)
  from Cons.IH [OF this] show ?case by (simp add: gathered_items_def)
qed

lemma combine_collect_lookup:
  assumes "map_of (combine_collect lib_size gathered) k = Some d"
  shows "maxlen d = lib_size \<and> items d = take_last lib_size (gathered_items k gathered)"
proof -
  have "merged_upto lib_size (\<lambda>k. []) ([] :: 'a collect)"
    by (simp add: merged_upto_def)
  from combine_all_merged [OF this, of gathered]
  have "merged_upto lib_size (\<lambda>k. gathered_items k gathered) (combine_collect lib_size gathered)"
    by (simp add: combine_collect_def)
  from merged_upto_Some [OF this assms] show ?thesis .
qed

text \<open>
  Claim C5, as amended. A pass of \<open>MaskFormer.forward\<close> that stores the fake queries
  keeps every buffer within its own \<open>maxlen\<close>; a buffer the pass creates has
  \<open>maxlen = lib_size // world_size\<close>, so starting from the empty dictionary no class
  holds more than \<open>lib_size // world_size\<close> features on a worker. The dictionary merged by
  \<open>Trainer.after_train\<close> bounds every class by \<open>lib_size\<close>, not by
  \<open>lib_size // world_size\<close>: its buffer holds the last \<open>lib_size\<close> features of the
  workers' buffers for the class, taken in the order of the ranks.
\<close>

theorem replay_cache_bounds:
  "(lib_size div world_size grp \<le> cap \<and> buffers_bounded cap collect
     \<and> store_fake_query lib_size grp med_feats collect indices complete_targets = Inr c
     \<and> map_of c k = Some d
     \<longrightarrow> length (items d) \<le> cap)
   \<and> (store_fake_query lib_size grp med_feats [] indices complete_targets = Inr c
     \<and> map_of c k = Some d
     \<longrightarrow> length (items d) \<le> lib_size div world_size grp)
   \<and> (map_of (combine_collect lib_size gathered) k = Some e
     \<longrightarrow> length (items e) \<le> lib_size
         \<and> items e = take_last lib_size (gathered_items k gathered))"
proof -
  have gen: "length (items d) \<le> cap'"
    if "lib_size div world_size grp \<le> cap'" and "buffers_bounded cap' c0"
      and "store_fake_query lib_size grp med_feats c0 indices complete_targets = Inr c"
      and "map_of c k = Some d" for cap' and c0 :: "'a collect"
  proof -
    from that(3) have "buffers_bounded cap' c"
      unfolding store_fake_query_def
      using store_images_bounded [OF that(1) that(2)] by blast
    from buffers_bounded_lookup [OF this that(4)] show ?thesis by simp
  qed
  have empty: "buffers_bounded (lib_size div world_size grp) ([] :: 'a collect)"
    by (simp add: buffers_bounded_def)
  have merged: "length (items e) \<le> lib_size
         \<and> items e = take_last lib_size (gathered_items k gathered)"
    if "map_of (combine_collect lib_size gathered) k = Some e"
    using combine_collect_lookup [OF that] by (simp add: take_last_length)
  from gen [of cap collect] gen [OF order_refl empty] merged show ?thesis by blast
qed


theorem replay_cache_bounds_witness:
  "store_fake_query 2 (Some 1) [[10 :: nat, 11]] [] [([0, 1], [0, 0])]
       [\<lparr>labels = [7], masks = [[True]], boxes = [()]\<rparr>]
     = Inr [(7, \<lparr>maxlen = 1, items = [11]\<rparr>)]
   \<and> length (items \<lparr>maxlen = 1, items = [11 :: nat]\<rparr>) \<le> 2 div world_size (Some 1)
   \<and> map_of (combine_collect 3 [[(7, \<lparr>maxlen = 2, items = [10 :: nat, 11]\<rparr>)],
                                 [(7, \<lparr>maxlen = 2, items = [20, 21]\<rparr>)]]) 7
       = Some \<lparr>maxlen = 3, items = [11, 20, 21]\<rparr>
   \<and> items \<lparr>maxlen = 3, items = [11 :: nat, 20, 21]\<rparr>
       = take_last 3 (gathered_items 7 [[(7, \<lparr>maxlen = 2, items = [10 :: nat, 11]\<rparr>)],
                                        [(7, \<lparr>maxlen = 2, items = [20, 21]\<rparr>)]])"
proof -
  have ws: "world_size (Some 1) = 2" "world_size (Some (Suc 0)) = 2"
    by (simp_all add: world_size_def)
  have run: "store_fake_query 2 (Some 1) [[10 :: nat, 11]] [] [([0, 1], [0, 0])]
       [\<lparr>labels = [7], masks = [[True]], boxes = [()]\<rparr>]
     = Inr [(7, \<lparr>maxlen = 1, items = [11]\<rparr>)]"
    by (simp add: store_fake_query_def py_index_def store_one_def deque_append_def
        deque_factory_def ws Let_def)
  have look: "map_of [(7 :: int, \<lparr>maxlen = 1, items = [11 :: nat]\<rparr>)] 7
       = Some \<lparr>maxlen = 1, items = [11]\<rparr>"
    by simp
  have merged: "map_of (combine_collect 3 [[(7, \<lparr>maxlen = 2, items = [10 :: nat, 11]\<rparr>)],
                                 [(7, \<lparr>maxlen = 2, items = [20, 21]\<rparr>)]]) 7
       = Some \<lparr>maxlen = 3, items = [11, 20, 21]\<rparr>"
    by (simp add: combine_collect_def combine_one_def deque_extend_def deque_append_def
        deque_factory_def Let_def)
  note th = replay_cache_bounds [where lib_size = 2 and grp = "Some 1"
      and med_feats = "[[10 :: nat, 11]]" and indices = "[([0, 1], [0, 0])]"
      and complete_targets = "[\<lparr>labels = [7], masks = [[True]], boxes = [()]\<rparr>]"
      and c = "[(7, \<lparr>maxlen = 1, items = [11]\<rparr>)]" and k = 7
      and d = "\<lparr>maxlen = 1, items = [11]\<rparr>"]
  from th run look have a: "length (items \<lparr>maxlen = 1, items = [11 :: nat]\<rparr>)
       \<le> 2 div world_size (Some 1)"
    by blast
  note th2 = replay_cache_bounds [where lib_size = 3 and k = 7
      and gathered = "[[(7, \<lparr>maxlen = 2, items = [10 :: nat, 11]\<rparr>)],
                       [(7, \<lparr>maxlen = 2, items = [20, 21]\<rparr>)]]"
      and e = "\<lparr>maxlen = 3, items = [11, 20, 21]\<rparr>"]
  from th2 merged have b: "items \<lparr>maxlen = 3, items = [11 :: nat, 20, 21]\<rparr>
       = take_last 3 (gathered_items 7 [[(7, \<lparr>maxlen = 2, items = [10 :: nat, 11]\<rparr>)],
                                        [(7, \<lparr>maxlen = 2, items = [20, 21]\<rparr>)]])"
    by blast
  from run a merged b show ?thesis by (intro conjI)
qed

text \<open>
  Two workers with \<open>lib_size = 2\<close> store one feature each for the same class; the merged
  buffer holds both, which is more than \<open>lib_size // world_size = 1\<close>.
\<close>

theorem merged_buffer_exceeds_worker_share:
  "store_fake_query 2 (Some 1) [[10 :: nat, 11]] [] [([0], [0])]
       [\<lparr>labels = [7], masks = [[True]], boxes = [()]\<rparr>]
     = Inr [(7, \<lparr>maxlen = 1, items = [10]\<rparr>)]
   \<and> store_fake_query 2 (Some 1) [[20 :: nat, 21]] [] [([0], [0])]
       [\<lparr>labels = [7], masks = [[True]], boxes = [()]\<rparr>]
     = Inr [(7, \<lparr>maxlen = 1, items = [20]\<rparr>)]
   \<and> combine_collect 2 [[(7, \<lparr>maxlen = 1, items = [10 :: nat]\<rparr>)],
                         [(7, \<lparr>maxlen = 1, items = [20]\<rparr>)]]
     = [(7, \<lparr>maxlen = 2, items = [10, 20]\<rparr>)]
   \<and> \<not> length [10 :: nat, 20] \<le> 2 div world_size (Some 1)"
proof -
  have ws: "world_size (Some 1) = 2" "world_size (Some (Suc 0)) = 2"
    by (simp_all add: world_size_def)
  show ?thesis
    by (simp add: store_fake_query_def py_index_def store_one_def deque_append_def
        deque_factory_def ws Let_def combine_collect_def combine_one_def deque_extend_def)
qed


subsection \<open>The pseudo masks and the ground-truth region\<close>

lemma select_subset: "set (select keep xs) \<subseteq> set xs"
  unfolding select_def by (auto dest: set_zip_rightD)

lemma select_all:
  "length keep = length xs \<Longrightarrow> \<forall>b \<in> set keep. b \<Longrightarrow> select keep xs = xs"
proof (induction keep xs rule: list_induct2)
  case Nil
  show ?case by (simp add: select_def)
next
  case (Cons b bs x xs)
  from Cons.prems have rest: "\<forall>b \<in> set bs. b" by auto
  from Cons.IH [OF rest] have "select bs xs = xs" .
  moreover from Cons.prems have b by auto
  ultimately show ?case by (simp add: select_def)
qed

lemma select_length_eq:
  "length xs = length ys \<Longrightarrow> length (select keep xs) = length (select keep ys)"
proof (induction keep arbitrary: xs ys)
  case Nil
  show ?case by (simp add: select_def)
next
  case (Cons b bs)
  show ?case
  proof (cases xs)
    case Nil
    with Cons.prems show ?thesis by (simp add: select_def)
  next
    case xs: (Cons x xs')
    with Cons.prems obtain y ys' where ys: "ys = y # ys'" and l: "length xs' = length ys'"
      by (cases ys) auto
    from Cons.IH [OF l] have "length (select bs xs') = length (select bs ys')" .
    with xs ys show ?thesis by (simp add: select_def)
  qed
qed

lemma area_mono:
  "length xs = length ys \<Longrightarrow> \<forall>j < length xs. xs ! j \<longrightarrow> ys ! j \<Longrightarrow> area xs \<le> area ys"
proof (induction xs ys rule: list_induct2)
  case Nil
  show ?case by (simp add: area_def)
next
  case (Cons x xs y ys)
  have "\<forall>j < length xs. xs ! j \<longrightarrow> ys ! j"
  proof (intro allI impI)
    fix j assume "j < length xs" and "xs ! j"
    with Cons.prems [rule_format, of "Suc j"] show "ys ! j" by simp
  qed
  with Cons.IH have "area xs \<le> area ys" by simp
  moreover from Cons.prems [rule_format, of 0] have "x \<longrightarrow> y" by simp
  ultimately show ?case by (auto simp: area_def)
qed

lemma gt_region_length: "length (gt_region npix gms) = npix"
  by (simp add: gt_region_def)

lemma non_ol_masks_init_row:
  "row \<in> set (non_ol_masks_init npix n ids oms) \<Longrightarrow> length row = npix"
  by (auto simp: non_ol_masks_init_def)

lemma non_ol_masks_length:
  "length (non_ol_masks npix gt_target cand) = length (p_masks cand)"
  by (simp add: non_ol_masks_def Let_def non_ol_masks_init_def)

lemma non_ol_masks_row:
  assumes "row \<in> set (non_ol_masks npix gt_target cand)"
  shows "length row = npix
       \<and> (\<forall>j < npix. row ! j \<longrightarrow> gt_region npix (masks gt_target) ! j = 0)"
proof -
  from assms obtain row0 where
    r0: "row0 \<in> set (non_ol_masks_init npix (length (p_labels cand))
                 (mask_ids npix (prob_masks (p_scores cand) (p_masks cand))) (p_masks cand))"
    and row: "row = map (\<lambda>(b, g). b \<and> g = 0) (zip row0 (gt_region npix (masks gt_target)))"
    by (auto simp: non_ol_masks_def Let_def)
  from non_ol_masks_init_row [OF r0] have l: "length row0 = npix" .
  with row show ?thesis by (simp add: gt_region_length)
qed

lemma and_region_zero:
  assumes "length m = npix" and "length region = npix"
    and "\<forall>j < npix. m ! j \<longrightarrow> region ! j = 0"
  shows "list_all (\<lambda>b. \<not> b) (and_region m region)"
  using assms
  by (auto simp: and_region_def list_all_iff in_set_zip)

lemma clamp01_nonzero: "clamp01 x \<noteq> 0 \<Longrightarrow> x \<noteq> 0"
  by (auto simp: clamp01_def)

lemma sum_list_indicator_nonzero:
  "sum_list (map (\<lambda>m. if P m then 1 else 0) ms) \<noteq> (0::int) \<Longrightarrow> \<exists>m \<in> set ms. P m"
  by (induction ms) (auto split: if_splits)

lemma label_mask_row:
  assumes "\<forall>m \<in> set sms. \<forall>j < npix. m ! j \<longrightarrow> region ! j = (0::int)"
  shows "length (label_mask npix lbls sms label) = npix
       \<and> (\<forall>j < npix. label_mask npix lbls sms label ! j \<longrightarrow> region ! j = 0)"
proof (intro conjI allI impI)
  show "length (label_mask npix lbls sms label) = npix" by (simp add: label_mask_def)
next
  fix j assume j: "j < npix" and on: "label_mask npix lbls sms label ! j"
  let ?sel = "select (map (\<lambda>l. l = label) lbls) sms"
  from j on have "sum_list (map (\<lambda>m. if m ! j then 1 else 0) ?sel) \<noteq> (0::int)"
    by (auto simp: label_mask_def dest: clamp01_nonzero)
  from sum_list_indicator_nonzero [OF this] obtain m where "m \<in> set ?sel" and "m ! j" by blast
  moreover have "set ?sel \<subseteq> set sms" by (rule select_subset)
  ultimately show "region ! j = 0" using assms j by blast
qed

lemma generate_psd_target_masks:
  assumes "m \<in> set (masks (fst (generate_psd_target bbox strict_mode thr combine npix
                                 gt_target old_pred)))"
  shows "length m = npix
       \<and> (\<forall>j < npix. m ! j \<longrightarrow> gt_region npix (masks gt_target) ! j = 0)"
proof -
  define cand where "cand = candidates strict_mode old_pred"
  define keep where "keep = psd_keep strict_mode thr npix gt_target cand"
  define sms where "sms = select keep (non_ol_masks npix gt_target cand)"
  define lbls where "lbls = select keep (p_labels cand)"
  have sms: "length r = npix \<and> (\<forall>j < npix. r ! j \<longrightarrow> gt_region npix (masks gt_target) ! j = 0)"
    if "r \<in> set sms" for r
  proof -
    from that have "r \<in> set (non_ol_masks npix gt_target cand)"
      unfolding sms_def using select_subset by fastforce
    then show ?thesis by (rule non_ol_masks_row)
  qed
  show ?thesis
  proof (cases "length (p_masks cand) = 0")
    case True
    with assms show ?thesis
      by (simp add: generate_psd_target_def Let_def cand_def [symmetric])
  next
    case False
    show ?thesis
    proof (cases combine)
      case True
      with False assms obtain label where
        "m = label_mask npix lbls sms label"
        by (auto simp: generate_psd_target_def Let_def cand_def [symmetric]
            keep_def [symmetric] sms_def [symmetric] lbls_def [symmetric])
      moreover have "\<forall>r \<in> set sms. \<forall>j < npix. r ! j \<longrightarrow> gt_region npix (masks gt_target) ! j = 0"
        using sms by blast
      ultimately show ?thesis using label_mask_row by blast
    next
      case c: False
      with False assms have "m \<in> set sms"
        by (simp add: generate_psd_target_def Let_def cand_def [symmetric]
            keep_def [symmetric] sms_def [symmetric])
      then show ?thesis by (rule sms)
    qed
  qed
qed

lemma generate_psd_targets_nth:
  assumes "i < length gt_targets" and "i < length old_preds"
  shows "fst (generate_psd_targets bbox strict_mode thr combine npix gt_targets old_preds) ! i
         = fst (generate_psd_target (bbox i) strict_mode thr combine npix
                  (gt_targets ! i) (old_preds ! i))"
  using assms by (simp add: generate_psd_targets_def Let_def)

text \<open>
  Claim C1. For every image, every mask of the pseudo target emitted by
  \<open>generate_psd_targets\<close> is a raster of the canvas whose pixel-wise AND with the
  ground-truth region of the image (the clamped sum of its real masks) is zero everywhere,
  in the mode with one entry per kept prediction and in the \<open>combine_psdlabel\<close> mode
  with one united mask per class.
\<close>

theorem psd_masks_disjoint_from_gt:
  assumes "i < length gt_targets" and "i < length old_preds"
    and "shapes_ok npix (gt_targets ! i) (old_preds ! i)"
    and "m \<in> set (masks (fst (generate_psd_targets bbox strict_mode thr combine_psdlabel npix
                                 gt_targets old_preds) ! i))"
  shows "length m = npix
       \<and> list_all (\<lambda>b. \<not> b) (and_region m (gt_region npix (masks (gt_targets ! i))))"
proof -
  from assms(4) have "m \<in> set (masks (fst (generate_psd_target (bbox i) strict_mode thr
      combine_psdlabel npix (gt_targets ! i) (old_preds ! i))))"
    by (simp only: generate_psd_targets_nth [OF assms(1,2)])
  from generate_psd_target_masks [OF this]
  have l: "length m = npix"
    and z: "\<forall>j < npix. m ! j \<longrightarrow> gt_region npix (masks (gt_targets ! i)) ! j = 0"
    by simp_all
  from and_region_zero [OF l gt_region_length z] l show ?thesis by simp
qed


theorem psd_masks_disjoint_from_gt_witness:
  "shapes_ok 2 \<lparr>labels = [9], masks = [[False, True]], boxes = [()]\<rparr>
       \<lparr>p_labels = [3], p_masks = [[1, 0]], p_scores = [1], p_boxes = [()]\<rparr>
   \<and> [True, False] \<in> set (masks (fst (generate_psd_targets (\<lambda>i m. ()) False (8 / 10) False 2
          [\<lparr>labels = [9], masks = [[False, True]], boxes = [()]\<rparr>]
          [\<lparr>p_labels = [3], p_masks = [[1, 0]], p_scores = [1], p_boxes = [()]\<rparr>]) ! 0))
   \<and> list_all (\<lambda>b. \<not> b) (and_region [True, False] (gt_region 2 [[False, True]]))"
proof -
  have two: "[0 ..< 2] = [0, 1]" by (simp add: upt_rec)
  have ok: "shapes_ok 2 ([\<lparr>labels = [9], masks = [[False, True]], boxes = [()]\<rparr>] ! 0)
       ([\<lparr>p_labels = [3], p_masks = [[1, 0]], p_scores = [1], p_boxes = [()]\<rparr>] ! 0)"
    by (simp add: shapes_ok_def)
  have run: "fst (generate_psd_targets (\<lambda>i m. ()) False (8 / 10) False 2
          [\<lparr>labels = [9], masks = [[False, True]], boxes = [()]\<rparr>]
          [\<lparr>p_labels = [3], p_masks = [[1, 0]], p_scores = [1], p_boxes = [()]\<rparr>]) ! 0
      = \<lparr>labels = [3], masks = [[True, False]], boxes = [()]\<rparr>"
    by (simp add: generate_psd_targets_def generate_psd_target_def candidates_def
        score_keep_def select_def psd_keep_def new_area_def old_area_def argmax_area_def
        non_ol_masks_def non_ol_masks_init_def selected_masks_def mask_ids_def prob_masks_def
        argmax_def gt_region_def clamp01_def binarize_def area_def Let_def two)
  then have mem: "[True, False] \<in> set (masks (fst (generate_psd_targets (\<lambda>i m. ()) False
          (8 / 10) False 2
          [\<lparr>labels = [9], masks = [[False, True]], boxes = [()]\<rparr>]
          [\<lparr>p_labels = [3], p_masks = [[1, 0]], p_scores = [1], p_boxes = [()]\<rparr>]) ! 0))"
    by simp
  from psd_masks_disjoint_from_gt [OF _ _ ok mem] ok mem show ?thesis by simp
qed

subsection \<open>The area filter\<close>

lemma candidates_shapes:
  assumes "shapes_ok npix gt_target old_pred"
  shows "shapes_ok npix gt_target (candidates strict_mode old_pred)"
proof -
  let ?keep = "score_keep strict_mode (p_scores old_pred)"
  from assms have l: "length (p_labels old_pred) = length (p_masks old_pred)"
    "length (p_scores old_pred) = length (p_masks old_pred)"
    "length (p_boxes old_pred) = length (p_masks old_pred)"
    and m: "list_all (\<lambda>m. length m = npix) (p_masks old_pred)"
    and g: "list_all (\<lambda>m. length m = npix) (masks gt_target)"
    by (simp_all add: shapes_ok_def)
  have "list_all (\<lambda>m. length m = npix) (select ?keep (p_masks old_pred))"
    using m select_subset [of ?keep "p_masks old_pred"] by (auto simp: list_all_iff)
  with l g show ?thesis
    by (simp add: shapes_ok_def candidates_def Let_def
        select_length_eq [OF l(1)] select_length_eq [OF l(2)] select_length_eq [OF l(3)])
qed

lemma new_area_le_old_area:
  assumes ok: "shapes_ok npix gt_target cand" and k: "k < length (p_masks cand)"
  shows "new_area npix gt_target cand ! k \<le> old_area (p_masks cand) ! k"
proof -
  let ?ids = "mask_ids npix (prob_masks (p_scores cand) (p_masks cand))"
  let ?region = "gt_region npix (masks gt_target)"
  let ?m = "p_masks cand ! k"
  let ?row0 = "map (\<lambda>j. ?ids ! j = k \<and> ?m ! j \<ge> 1 / 2) [0 ..< npix]"
  let ?row = "map (\<lambda>(b, g). b \<and> g = 0) (zip ?row0 ?region)"
  from ok k have lm: "length ?m = npix" and kl: "k < length (p_labels cand)"
    by (simp_all add: shapes_ok_def list_all_length)
  have row: "non_ol_masks npix gt_target cand ! k = ?row"
    using k kl by (simp add: non_ol_masks_def Let_def non_ol_masks_init_def)
  have len: "length ?row = length (binarize ?m)"
    by (simp add: binarize_def lm gt_region_length)
  have imp: "\<forall>j < length ?row. ?row ! j \<longrightarrow> binarize ?m ! j"
    by (simp add: binarize_def lm gt_region_length)
  from area_mono [OF len imp] have "area ?row \<le> area (binarize ?m)" .
  with row k show ?thesis
    by (simp add: new_area_def old_area_def non_ol_masks_length)
qed

lemma psd_keep_length:
  assumes "shapes_ok npix gt_target cand"
  shows "length (psd_keep strict_mode thr npix gt_target cand) = length (p_masks cand)"
  by (simp add: psd_keep_def new_area_def old_area_def argmax_area_def selected_masks_def
      non_ol_masks_length)

lemma psd_keep_nth:
  assumes "k < length (p_masks cand)"
  shows "psd_keep False thr npix gt_target cand ! k
       \<longleftrightarrow> (0 < new_area npix gt_target cand ! k
            \<and> real (old_area (p_masks cand) ! k) * thr < real (new_area npix gt_target cand ! k))"
  using assms
  by (simp add: psd_keep_def new_area_def old_area_def argmax_area_def selected_masks_def
      non_ol_masks_length)

text \<open>
  Claim C2. In the default path of \<open>generate_psd_targets\<close> (\<open>strict_mode\<close> false), for an
  image with at least one candidate, candidate \<open>k\<close> is kept exactly when its area after
  the subtraction is positive and larger than its old area times
  \<open>psd_overlap_threshold\<close>; the new area never exceeds the old area, so a candidate whose
  old area is zero is never kept. The labels and masks of the pseudo target are those of
  the kept candidates (the sorted distinct labels in the \<open>combine_psdlabel\<close> mode).
\<close>

theorem psd_keep_iff_area:
  assumes ok: "shapes_ok npix gt_target old_pred"
    and ne: "length (p_masks (candidates False old_pred)) \<noteq> 0"
    and k: "k < length (p_masks (candidates False old_pred))"
  shows "length (psd_keep False thr npix gt_target (candidates False old_pred))
           = length (p_masks (candidates False old_pred))
       \<and> (psd_keep False thr npix gt_target (candidates False old_pred) ! k
            \<longleftrightarrow> (0 < new_area npix gt_target (candidates False old_pred) ! k
                 \<and> real (old_area (p_masks (candidates False old_pred)) ! k) * thr
                     < real (new_area npix gt_target (candidates False old_pred) ! k)))
       \<and> new_area npix gt_target (candidates False old_pred) ! k
           \<le> old_area (p_masks (candidates False old_pred)) ! k
       \<and> (old_area (p_masks (candidates False old_pred)) ! k = 0
            \<longrightarrow> \<not> psd_keep False thr npix gt_target (candidates False old_pred) ! k)
       \<and> labels (fst (generate_psd_target bbox False thr False npix gt_target old_pred))
           = select (psd_keep False thr npix gt_target (candidates False old_pred))
               (p_labels (candidates False old_pred))
       \<and> masks (fst (generate_psd_target bbox False thr False npix gt_target old_pred))
           = select (psd_keep False thr npix gt_target (candidates False old_pred))
               (non_ol_masks npix gt_target (candidates False old_pred))
       \<and> labels (fst (generate_psd_target bbox False thr True npix gt_target old_pred))
           = sort (remdups (select (psd_keep False thr npix gt_target (candidates False old_pred))
               (p_labels (candidates False old_pred))))"
proof -
  define cand where "cand = candidates False old_pred"
  from candidates_shapes [OF ok] have okc: "shapes_ok npix gt_target cand"
    by (simp add: cand_def)
  from k have kc: "k < length (p_masks cand)" by (simp add: cand_def)
  from ne have nec: "length (p_masks cand) \<noteq> 0" by (simp add: cand_def)
  have a: "length (psd_keep False thr npix gt_target cand) = length (p_masks cand)"
    using okc by (rule psd_keep_length)
  have b: "psd_keep False thr npix gt_target cand ! k
       \<longleftrightarrow> (0 < new_area npix gt_target cand ! k
            \<and> real (old_area (p_masks cand) ! k) * thr < real (new_area npix gt_target cand ! k))"
    using kc by (rule psd_keep_nth)
  have c: "new_area npix gt_target cand ! k \<le> old_area (p_masks cand) ! k"
    using okc kc by (rule new_area_le_old_area)
  have d: "old_area (p_masks cand) ! k = 0 \<longrightarrow> \<not> psd_keep False thr npix gt_target cand ! k"
    using b c by simp
  have e: "labels (fst (generate_psd_target bbox False thr False npix gt_target old_pred))
           = select (psd_keep False thr npix gt_target cand) (p_labels cand)"
    using nec by (simp add: generate_psd_target_def Let_def cand_def [symmetric])
  have f: "masks (fst (generate_psd_target bbox False thr False npix gt_target old_pred))
           = select (psd_keep False thr npix gt_target cand) (non_ol_masks npix gt_target cand)"
    using nec by (simp add: generate_psd_target_def Let_def cand_def [symmetric])
  have g: "labels (fst (generate_psd_target bbox False thr True npix gt_target old_pred))
           = sort (remdups (select (psd_keep False thr npix gt_target cand) (p_labels cand)))"
    using nec by (simp add: generate_psd_target_def Let_def cand_def [symmetric])
  from a b c d e f g show ?thesis unfolding cand_def by (intro conjI)
qed

subsection \<open>The candidates\<close>

text \<open>
  Claim C9. In the default path \<open>generate_psd_targets\<close> selects the predictions with
  \<open>scores >= 0.0\<close>: for a prediction of the old model whose scores are not negative, the
  candidates that reach the area filter are all of its labels, masks, scores and boxes.
\<close>

theorem candidates_all_predictions:
  assumes "length (p_labels old_pred) = length (p_scores old_pred)"
    and "length (p_masks old_pred) = length (p_scores old_pred)"
    and "length (p_boxes old_pred) = length (p_scores old_pred)"
    and "\<forall>s \<in> set (p_scores old_pred). 0 \<le> s"
  shows "candidates False old_pred = old_pred"
proof -
  let ?keep = "score_keep False (p_scores old_pred)"
  have all: "\<forall>b \<in> set ?keep. b" using assms(4) by (auto simp: score_keep_def)
  have len: "length ?keep = length (p_scores old_pred)" by (simp add: score_keep_def)
  have "select ?keep (p_labels old_pred) = p_labels old_pred"
    "select ?keep (p_masks old_pred) = p_masks old_pred"
    "select ?keep (p_scores old_pred) = p_scores old_pred"
    "select ?keep (p_boxes old_pred) = p_boxes old_pred"
    using assms(1-3) len all by (simp_all add: select_all)
  then show ?thesis by (simp add: candidates_def Let_def)
qed


theorem psd_keep_iff_area_witness:
  "shapes_ok 2 \<lparr>labels = [9], masks = [[False, True]], boxes = [()]\<rparr>
       \<lparr>p_labels = [3, 4], p_masks = [[1, 0], [0, 0]], p_scores = [1, 1], p_boxes = [(), ()]\<rparr>
   \<and> old_area (p_masks (candidates False
         \<lparr>p_labels = [3, 4], p_masks = [[1, 0], [0, 0]], p_scores = [1, 1],
          p_boxes = [(), ()]\<rparr>)) ! 1 = 0
   \<and> \<not> psd_keep False (8 / 10) 2 \<lparr>labels = [9], masks = [[False, True]], boxes = [()]\<rparr>
         (candidates False
           \<lparr>p_labels = [3, 4], p_masks = [[1, 0], [0, 0]], p_scores = [1, 1],
            p_boxes = [(), ()]\<rparr>) ! 1
   \<and> psd_keep False (8 / 10) 2 \<lparr>labels = [9], masks = [[False, True]], boxes = [()]\<rparr>
         (candidates False
           \<lparr>p_labels = [3, 4], p_masks = [[1, 0], [0, 0]], p_scores = [1, 1],
            p_boxes = [(), ()]\<rparr>) ! 0"
proof -
  define gt :: "unit target" where
    "gt = \<lparr>labels = [9], masks = [[False, True]], boxes = [()]\<rparr>"
  define pred :: "unit prediction" where
    "pred = \<lparr>p_labels = [3, 4], p_masks = [[1, 0], [0, 0]], p_scores = [1, 1],
             p_boxes = [(), ()]\<rparr>"
  have two: "[0 ..< 2] = [0, 1]" by (simp add: upt_rec)
  have cand: "candidates False pred = pred"
    by (simp add: candidates_def score_keep_def select_def pred_def)
  have ok: "shapes_ok 2 gt pred" by (simp add: shapes_ok_def gt_def pred_def)
  have ne: "length (p_masks (candidates False pred)) \<noteq> 0" by (simp add: cand) (simp add: pred_def)
  have k1: "1 < length (p_masks (candidates False pred))" by (simp add: cand) (simp add: pred_def)
  have k0: "0 < length (p_masks (candidates False pred))" by (simp add: cand) (simp add: pred_def)
  have oa: "old_area (p_masks (candidates False pred)) = [1, 0]"
    by (simp add: cand) (simp add: pred_def old_area_def binarize_def area_def)
  have na: "new_area 2 gt (candidates False pred) = [1, 0]"
    by (simp add: cand)
      (simp add: pred_def gt_def new_area_def non_ol_masks_def non_ol_masks_init_def
        mask_ids_def prob_masks_def argmax_def gt_region_def clamp01_def area_def Let_def two)
  from psd_keep_iff_area [OF ok ne k1, of "8 / 10" "\<lambda>m. ()"] oa
  have a: "\<not> psd_keep False (8 / 10) 2 gt (candidates False pred) ! 1" by simp
  from psd_keep_iff_area [OF ok ne k0, of "8 / 10" "\<lambda>m. ()"] oa na
  have b: "psd_keep False (8 / 10) 2 gt (candidates False pred) ! 0" by simp
  from oa have c: "old_area (p_masks (candidates False pred)) ! 1 = 0" by simp
  from ok c a b show ?thesis unfolding gt_def pred_def by (intro conjI)
qed

theorem candidates_all_predictions_witness:
  "candidates False
     \<lparr>p_labels = [3, 4], p_masks = [[1, 0], [0, 0]], p_scores = [1, 0], p_boxes = [(), ()]\<rparr>
   = \<lparr>p_labels = [3, 4], p_masks = [[1, 0], [0, 0]], p_scores = [1, 0], p_boxes = [(), ()]\<rparr>"
  using candidates_all_predictions
    [of "\<lparr>p_labels = [3, 4], p_masks = [[1, 0], [0, 0]], p_scores = [1, 0],
          p_boxes = [(), ()]\<rparr>"]
  by simp

end
